theory Spec2Isabelle
  imports Main "HOL-Library.AList"
begin

section \<open>Data model of server/index.js\<close>

text \<open>
  Identifiers are the strings returned by \<^verbatim>\<open>uuidv4()\<close>: opaque, never empty (so always
  truthy in a JavaScript condition) and compared only for equality. \<open>Uuid n\<close> stands for
  one such string. Timestamps (\<^verbatim>\<open>new Date()\<close>) are opaque too.
\<close>

datatype uuid = Uuid nat

type_synonym time = nat

text \<open>The value stored by \<^verbatim>\<open>register_player\<close>: \<^verbatim>\<open>{ id, name, level }\<close>.\<close>

record player =
  player_id :: uuid
  name :: string
  level :: int

text \<open>A chat entry: \<^verbatim>\<open>{ id, user, message, timestamp }\<close>.\<close>

record chatMessage =
  msg_id :: uuid
  user :: string
  message :: string
  timestamp :: time

text \<open>
  The lobby object built by \<^verbatim>\<open>createLobby\<close>. Its field \<^verbatim>\<open>players\<close> (the member ids, in
  joining order) is \<open>lobby_players\<close> here, since the registry below is called \<open>players\<close>
  as well; \<^verbatim>\<open>id\<close> is \<open>lobby_id\<close>. \<open>maxPlayers\<close> is whatever number the client sent.
\<close>

record lobby =
  lobby_id :: uuid
  title :: string
  hostId :: uuid
  lobby_players :: "uuid list"
  maxPlayers :: int
  password :: string
  isPrivate :: bool
  createdAt :: time
  chatMessages :: "chatMessage list"

text \<open>
  The three module-level maps. \<open>lobbies\<close> is a JavaScript \<^verbatim>\<open>Map\<close> that is iterated by
  \<^verbatim>\<open>getPublicLobbies\<close>, so it is an association list in insertion order: \<^verbatim>\<open>set\<close> is
  \<^const>\<open>AList.update\<close> (replace in place, or append), \<^verbatim>\<open>delete\<close> is \<^const>\<open>AList.delete\<close>,
  \<^verbatim>\<open>get\<close> is \<^const>\<open>map_of\<close>. The other two are only looked up by key.
\<close>

record state =
  lobbies :: "(uuid \<times> lobby) list"
  players :: "uuid \<rightharpoonup> player"
  lobbySubscriptions :: "uuid \<rightharpoonup> uuid"

definition initial_state :: state where
  "initial_state = \<lparr>lobbies = [], players = Map.empty, lobbySubscriptions = Map.empty\<rparr>"

text \<open>
  What one operation reads from outside the state: the value of its \<open>i\<close>-th call of
  \<^verbatim>\<open>uuidv4()\<close>, of \<^verbatim>\<open>new Date()\<close> and of
  \<^verbatim>\<open>Math.floor(Math.random() * chars.length)\<close>, counted from 0 in evaluation order.
\<close>

record env =
  uuidv4 :: "nat \<Rightarrow> uuid"
  new_Date :: "nat \<Rightarrow> time"
  random_index :: "nat \<Rightarrow> nat"

text \<open>
  The \<^verbatim>\<open>error\<close> strings of the result objects \<^verbatim>\<open>{ success: false, error }\<close>, named by
  the kind of failure; \<open>error_message\<close> gives the string the source returns.
\<close>

datatype host_action = Delist | RegeneratePassword | ChangePrivacy

datatype error =
    NotFound
  | Full
  | AlreadyMember
  | NotInLobby
  | NotMember
  | Forbidden host_action

fun error_message :: "error \<Rightarrow> string" where
  "error_message NotFound = ''Lobby not found''"
| "error_message Full = ''Lobby is full''"
| "error_message AlreadyMember = ''Already in lobby''"
| "error_message NotInLobby = ''Not in any lobby''"
| "error_message NotMember = ''Not in this lobby''"
| "error_message (Forbidden Delist) = ''Only host can delist lobby''"
| "error_message (Forbidden RegeneratePassword) = ''Only host can regenerate password''"
| "error_message (Forbidden ChangePrivacy) = ''Only host can change privacy''"

section \<open>LobbyManager\<close>

text \<open>
  \<^verbatim>\<open>this.lobbies.get(lobbyId)\<close>. The handlers pass \<^verbatim>\<open>lobbySubscriptions.get(ws.playerId)\<close>
  as the lobby id, which is \<^verbatim>\<open>undefined\<close> (\<open>None\<close>) for a connection without an entry;
  no lobby is stored under that key.
\<close>

definition lobbies_get :: "state \<Rightarrow> uuid option \<Rightarrow> lobby option" where
  "lobbies_get s lobbyId = (case lobbyId of None \<Rightarrow> None | Some k \<Rightarrow> map_of (lobbies s) k)"

text \<open>
  Writing back the lobby object that was fetched under \<open>lobbyId\<close> and mutated in place.
\<close>

definition lobbies_put :: "uuid option \<Rightarrow> lobby \<Rightarrow> state \<Rightarrow> state" where
  "lobbies_put lobbyId l s =
     (case lobbyId of None \<Rightarrow> s
      | Some k \<Rightarrow> s\<lparr>lobbies := AList.update k l (lobbies s)\<rparr>)"

definition lobbies_delete :: "uuid option \<Rightarrow> state \<Rightarrow> state" where
  "lobbies_delete lobbyId s =
     (case lobbyId of None \<Rightarrow> s
      | Some k \<Rightarrow> s\<lparr>lobbies := AList.delete k (lobbies s)\<rparr>)"

text \<open>\<^verbatim>\<open>players.get(pid)?.name || dflt\<close>: a missing player or an empty name gives \<open>dflt\<close>.\<close>

definition name_or :: "state \<Rightarrow> uuid \<Rightarrow> string \<Rightarrow> string" where
  "name_or s pid dflt =
     (case players s pid of
        None \<Rightarrow> dflt
      | Some p \<Rightarrow> if name p = [] then dflt else name p)"

text \<open>A system entry, built with the \<open>i\<close>-th uuid and date of the running operation.\<close>

definition system_message :: "env \<Rightarrow> nat \<Rightarrow> string \<Rightarrow> chatMessage" where
  "system_message e i text =
     \<lparr>msg_id = uuidv4 e i, user = ''System'', message = text, timestamp = new_Date e i\<rparr>"

definition chars :: string where
  "chars = ''ABCDEFGHIJKLMNOPQRSTUVWXYZ0123456789''"

text \<open>\<^verbatim>\<open>String.prototype.charAt\<close>: the empty string out of range.\<close>

definition charAt :: "string \<Rightarrow> nat \<Rightarrow> string" where
  "charAt str i = (if i < length str then [str ! i] else [])"

definition generatePassword :: "env \<Rightarrow> string" where
  "generatePassword e = concat (map (\<lambda>i. charAt chars (random_index e i)) [0..<8])"

text \<open>
  \<^verbatim>\<open>createLobby(title, hostId, maxPlayers = 3)\<close>: the default applies when the client sent
  no \<^verbatim>\<open>maxPlayers\<close> (\<open>None\<close>). Calls in order: \<^verbatim>\<open>uuidv4\<close> for the lobby, the password,
  \<^verbatim>\<open>new Date\<close> for \<^verbatim>\<open>createdAt\<close>, then \<^verbatim>\<open>uuidv4\<close> and \<^verbatim>\<open>new Date\<close> for the welcome entry.
\<close>

definition createLobby :: "env \<Rightarrow> string \<Rightarrow> uuid \<Rightarrow> int option \<Rightarrow> state \<Rightarrow> lobby \<times> state" where
  "createLobby e ttl hostId' maxPlayers' s =
     (let lobbyId = uuidv4 e 0;
          lobby = \<lparr>lobby_id = lobbyId,
                   title = ttl,
                   hostId = hostId',
                   lobby_players = [hostId'],
                   maxPlayers = (case maxPlayers' of None \<Rightarrow> 3 | Some m \<Rightarrow> m),
                   password = generatePassword e,
                   isPrivate = False,
                   createdAt = new_Date e 0,
                   chatMessages =
                     [\<lparr>msg_id = uuidv4 e 1, user = ''System'',
                       message = ''Lobby created! Welcome!'', timestamp = new_Date e 1\<rparr>]\<rparr>
      in (lobby,
          s\<lparr>lobbies := AList.update lobbyId lobby (lobbies s),
            lobbySubscriptions := (lobbySubscriptions s)(hostId' \<mapsto> lobbyId)\<rparr>))"

text \<open>
  \<^verbatim>\<open>joinLobby(lobbyId, playerId)\<close>. Past the first check \<open>lobbyId\<close> is the key of the lobby
  found, so \<^verbatim>\<open>lobbySubscriptions.set(playerId, lobbyId)\<close> stores that key.
\<close>

definition joinLobby :: "env \<Rightarrow> uuid option \<Rightarrow> uuid \<Rightarrow> state \<Rightarrow> (error + lobby) \<times> state" where
  "joinLobby e lobbyId playerId s =
     (case lobbies_get s lobbyId of
        None \<Rightarrow> (Inl NotFound, s)
      | Some lobby \<Rightarrow>
          if int (length (lobby_players lobby)) \<ge> maxPlayers lobby then (Inl Full, s)
          else if playerId \<in> set (lobby_players lobby) then (Inl AlreadyMember, s)
          else
            let lobby1 = lobby\<lparr>lobby_players := lobby_players lobby @ [playerId]\<rparr>;
                subs = (lobbySubscriptions s)(playerId := lobbyId);
                lobby2 = lobby1\<lparr>chatMessages := chatMessages lobby1 @
                           [system_message e 0 (name_or s playerId ''Player'' @ '' joined the lobby'')]\<rparr>
            in (Inr lobby2, lobbies_put lobbyId lobby2 (s\<lparr>lobbySubscriptions := subs\<rparr>)))"

text \<open>The two successful results of \<^verbatim>\<open>leaveLobby\<close>: \<^verbatim>\<open>{ lobbyDeleted: true }\<close> or \<^verbatim>\<open>{ lobby }\<close>.\<close>

datatype leave_result = LobbyDeleted | LobbyKept lobby

definition leaveLobby :: "env \<Rightarrow> uuid \<Rightarrow> state \<Rightarrow> (error + leave_result) \<times> state" where
  "leaveLobby e playerId s =
     (let lobbyId = lobbySubscriptions s playerId in
      if lobbyId = None then (Inl NotInLobby, s)
      else
        case lobbies_get s lobbyId of
          None \<Rightarrow> (Inl NotFound, s)
        | Some lobby \<Rightarrow>
            let lobby1 = lobby\<lparr>lobby_players := filter (\<lambda>i. i \<noteq> playerId) (lobby_players lobby)\<rparr>;
                s1 = s\<lparr>lobbySubscriptions := (lobbySubscriptions s)(playerId := None)\<rparr>;
                lobby2 = lobby1\<lparr>chatMessages := chatMessages lobby1 @
                           [system_message e 0 (name_or s playerId ''Player'' @ '' left the lobby'')]\<rparr>
            in if hostId lobby2 = playerId then
                 if length (lobby_players lobby2) > 0 then
                   let lobby3 = lobby2\<lparr>hostId := lobby_players lobby2 ! 0\<rparr>;
                       lobby4 = lobby3\<lparr>chatMessages := chatMessages lobby3 @
                                  [system_message e 1
                                     (name_or s (hostId lobby3) ''Player'' @ '' is now the host'')]\<rparr>
                   in (Inr (LobbyKept lobby4), lobbies_put lobbyId lobby4 s1)
                 else (Inr LobbyDeleted, lobbies_delete lobbyId s1)
               else (Inr (LobbyKept lobby2), lobbies_put lobbyId lobby2 s1))"

definition delistLobby :: "uuid option \<Rightarrow> uuid \<Rightarrow> state \<Rightarrow> (error + unit) \<times> state" where
  "delistLobby lobbyId playerId s =
     (case lobbies_get s lobbyId of
        None \<Rightarrow> (Inl NotFound, s)
      | Some lobby \<Rightarrow>
          if hostId lobby \<noteq> playerId then (Inl (Forbidden Delist), s)
          else
            let subs = fold (\<lambda>pid m. m(pid := None)) (lobby_players lobby) (lobbySubscriptions s)
            in (Inr (), lobbies_delete lobbyId (s\<lparr>lobbySubscriptions := subs\<rparr>)))"

text \<open>
  \<^verbatim>\<open>String.prototype.trim\<close> on the bytes of the message: the ASCII white space (space, tab,
  line feed, vertical tab, form feed, carriage return) is removed at both ends.
\<close>

definition is_space :: "char \<Rightarrow> bool" where
  "is_space c = (c \<in> set [CHR '' '', CHR 0x09, CHR 0x0A, CHR 0x0B, CHR 0x0C, CHR 0x0D])"

definition trim :: "string \<Rightarrow> string" where
  "trim str = rev (dropWhile is_space (rev (dropWhile is_space str)))"

text \<open>\<^verbatim>\<open>xs.slice(-100)\<close>: the last 100 elements, all of them when there are fewer.\<close>

definition slice_last :: "nat \<Rightarrow> 'a list \<Rightarrow> 'a list" where
  "slice_last n xs = drop (length xs - n) xs"

definition addChatMessage ::
  "env \<Rightarrow> uuid option \<Rightarrow> uuid \<Rightarrow> string \<Rightarrow> state \<Rightarrow> (error + chatMessage) \<times> state" where
  "addChatMessage e lobbyId playerId msg s =
     (case lobbies_get s lobbyId of
        None \<Rightarrow> (Inl NotFound, s)
      | Some lobby \<Rightarrow>
          if playerId \<notin> set (lobby_players lobby) then (Inl NotMember, s)
          else
            let chatMsg = \<lparr>msg_id = uuidv4 e 0, user = name_or s playerId ''Unknown'',
                           message = trim msg, timestamp = new_Date e 0\<rparr>;
                lobby1 = lobby\<lparr>chatMessages := chatMessages lobby @ [chatMsg]\<rparr>;
                lobby2 = (if length (chatMessages lobby1) > 100
                          then lobby1\<lparr>chatMessages := slice_last 100 (chatMessages lobby1)\<rparr>
                          else lobby1)
            in (Inr chatMsg, lobbies_put lobbyId lobby2 s))"

definition regeneratePassword :: "env \<Rightarrow> uuid option \<Rightarrow> uuid \<Rightarrow> state \<Rightarrow> (error + string) \<times> state" where
  "regeneratePassword e lobbyId playerId s =
     (case lobbies_get s lobbyId of
        None \<Rightarrow> (Inl NotFound, s)
      | Some lobby \<Rightarrow>
          if hostId lobby \<noteq> playerId then (Inl (Forbidden RegeneratePassword), s)
          else
            let lobby1 = lobby\<lparr>password := generatePassword e\<rparr>
            in (Inr (password lobby1), lobbies_put lobbyId lobby1 s))"

definition togglePrivacy :: "uuid option \<Rightarrow> uuid \<Rightarrow> state \<Rightarrow> (error + bool) \<times> state" where
  "togglePrivacy lobbyId playerId s =
     (case lobbies_get s lobbyId of
        None \<Rightarrow> (Inl NotFound, s)
      | Some lobby \<Rightarrow>
          if hostId lobby \<noteq> playerId then (Inl (Forbidden ChangePrivacy), s)
          else
            let lobby1 = lobby\<lparr>isPrivate := \<not> isPrivate lobby\<rparr>
            in (Inr (isPrivate lobby1), lobbies_put lobbyId lobby1 s))"

text \<open>
  \<^verbatim>\<open>lobby.players.map(pid => players.get(pid)).filter(Boolean)\<close>: the lookups that gave
  \<^verbatim>\<open>undefined\<close> are dropped, the player objects (always truthy) are kept in order.
\<close>

fun filter_Boolean :: "'a option list \<Rightarrow> 'a list" where
  "filter_Boolean [] = []"
| "filter_Boolean (None # xs) = filter_Boolean xs"
| "filter_Boolean (Some x # xs) = x # filter_Boolean xs"

definition resolve_players :: "state \<Rightarrow> lobby \<Rightarrow> player list" where
  "resolve_players s lobby = filter_Boolean (map (players s) (lobby_players lobby))"

text \<open>One element of the list that \<^verbatim>\<open>getPublicLobbies\<close> returns.\<close>

record summary =
  summary_id :: uuid
  summary_title :: string
  summary_players :: "player list"
  summary_maxPlayers :: int
  summary_createdAt :: time

definition getPublicLobbies :: "state \<Rightarrow> summary list" where
  "getPublicLobbies s =
     map (\<lambda>lobby. \<lparr>summary_id = lobby_id lobby,
                    summary_title = title lobby,
                    summary_players = resolve_players s lobby,
                    summary_maxPlayers = maxPlayers lobby,
                    summary_createdAt = createdAt lobby\<rparr>)
         (filter (\<lambda>lobby. \<not> isPrivate lobby) (map snd (lobbies s)))"

text \<open>
  The view \<^verbatim>\<open>{ ...lobby, players: [resolved] }\<close> of \<^verbatim>\<open>getLobbyDetails\<close>: every field of the
  lobby, with \<^verbatim>\<open>players\<close> replaced by the resolved records.
\<close>

record details =
  details_lobby :: lobby
  details_players :: "player list"

definition getLobbyDetails :: "uuid option \<Rightarrow> uuid \<Rightarrow> state \<Rightarrow> error + details" where
  "getLobbyDetails lobbyId playerId s =
     (case lobbies_get s lobbyId of
        None \<Rightarrow> Inl NotFound
      | Some lobby \<Rightarrow>
          if playerId \<notin> set (lobby_players lobby) then Inl NotMember
          else Inr \<lparr>details_lobby = lobby, details_players = resolve_players s lobby\<rparr>)"

section \<open>Connections and outbound messages\<close>

text \<open>
  An element of \<^verbatim>\<open>wss.clients\<close>: the \<^verbatim>\<open>playerId\<close> given to the socket on connection and
  whether \<^verbatim>\<open>readyState === OPEN\<close>. The set of clients belongs to the socket library, so
  every handler takes its current content as an argument.
\<close>

record client =
  playerId :: uuid
  isOpen :: bool

text \<open>The envelopes \<^verbatim>\<open>{ type, data }\<close> sent by the server, one constructor per type.\<close>

datatype envelope =
    player_registered uuid "player option"
  | lobbies_list "summary list"
  | lobbies_updated "summary list"
  | lobby_created lobby
  | lobby_joined lobby
  | player_joined "player option" lobby
  | lobby_left
  | player_left uuid lobby
  | lobby_delisted
  | chat_message chatMessage
  | password_updated string
  | privacy_updated bool
  | lobby_details details
  | error_envelope string

text \<open>A message handed to \<^verbatim>\<open>client.send\<close>: the receiving client and the envelope.\<close>

type_synonym delivery = "client \<times> envelope"

definition broadcast :: "client list \<Rightarrow> envelope \<Rightarrow> delivery list" where
  "broadcast clients msg = map (\<lambda>c. (c, msg)) (filter isOpen clients)"

text \<open>
  \<^verbatim>\<open>broadcastToLobby(lobbyId, type, data, excludeClient = null)\<close> looks the lobby up in the
  current state and returns at once when there is none.
\<close>

definition broadcastToLobby ::
  "state \<Rightarrow> client list \<Rightarrow> uuid option \<Rightarrow> envelope \<Rightarrow> client option \<Rightarrow> delivery list" where
  "broadcastToLobby s clients lobbyId msg excludeClient =
     (case lobbies_get s lobbyId of
        None \<Rightarrow> []
      | Some lobby \<Rightarrow>
          broadcast
            (filter (\<lambda>c. playerId c \<in> set (lobby_players lobby) \<and> Some c \<noteq> excludeClient) clients)
            msg)"

definition sendToClient :: "client \<Rightarrow> envelope \<Rightarrow> delivery list" where
  "sendToClient c msg = (if isOpen c then [(c, msg)] else [])"

text \<open>The \<^verbatim>\<open>type\<close> field of an envelope, and who was sent which type.\<close>

fun envelope_type :: "envelope \<Rightarrow> string" where
  "envelope_type (player_registered _ _) = ''player_registered''"
| "envelope_type (lobbies_list _) = ''lobbies_list''"
| "envelope_type (lobbies_updated _) = ''lobbies_updated''"
| "envelope_type (lobby_created _) = ''lobby_created''"
| "envelope_type (lobby_joined _) = ''lobby_joined''"
| "envelope_type (player_joined _ _) = ''player_joined''"
| "envelope_type lobby_left = ''lobby_left''"
| "envelope_type (player_left _ _) = ''player_left''"
| "envelope_type lobby_delisted = ''lobby_delisted''"
| "envelope_type (chat_message _) = ''chat_message''"
| "envelope_type (password_updated _) = ''password_updated''"
| "envelope_type (privacy_updated _) = ''privacy_updated''"
| "envelope_type (lobby_details _) = ''lobby_details''"
| "envelope_type (error_envelope _) = ''error''"

definition receipts :: "delivery list \<Rightarrow> (uuid \<times> string) list" where
  "receipts ds = map (\<lambda>(c, m). (playerId c, envelope_type m)) ds"

section \<open>The message and close handlers\<close>

text \<open>
  The parsed client messages, one constructor per \<^verbatim>\<open>type\<close> of the \<^verbatim>\<open>switch\<close>, with the
  fields of \<^verbatim>\<open>data\<close> that the case reads; an optional field the client left out is \<open>None\<close>.
  \<open>unknown_type\<close> is any other type. \<open>malformed\<close> is a message that makes the handler
  throw into its \<^verbatim>\<open>catch\<close>: a text that \<^verbatim>\<open>JSON.parse\<close> rejects, a missing \<^verbatim>\<open>data\<close> object, a
  chat message that is no string. Each of these throws before anything is written.
\<close>

datatype command =
    register_player string "int option"
  | get_lobbies
  | create_lobby string "int option"
  | join_lobby "uuid option"
  | leave_lobby
  | delist_lobby
  | send_chat_message string
  | regenerate_password
  | toggle_privacy
  | get_lobby_details
  | unknown_type
  | malformed

definition on_message ::
  "client list \<Rightarrow> client \<Rightarrow> env \<Rightarrow> command \<Rightarrow> state \<Rightarrow> state \<times> delivery list" where
  "on_message clients ws e cmd s =
     (case cmd of
        register_player nm lvl \<Rightarrow>
          let s1 = s\<lparr>players := (players s)(playerId ws \<mapsto>
                       \<lparr>player_id = playerId ws, name = nm,
                        level = (case lvl of None \<Rightarrow> 1 | Some v \<Rightarrow> if v = 0 then 1 else v)\<rparr>)\<rparr>
          in (s1, sendToClient ws (player_registered (playerId ws) (players s1 (playerId ws))))
      | get_lobbies \<Rightarrow> (s, sendToClient ws (lobbies_list (getPublicLobbies s)))
      | create_lobby ttl maxPlayers' \<Rightarrow>
          let (newLobby, s1) = createLobby e ttl (playerId ws) maxPlayers' s
          in (s1, sendToClient ws (lobby_created newLobby) @
                  broadcast clients (lobbies_updated (getPublicLobbies s1)))
      | join_lobby lobbyId \<Rightarrow>
          (case joinLobby e lobbyId (playerId ws) s of
             (Inr lobby, s1) \<Rightarrow>
               (s1, sendToClient ws (lobby_joined lobby) @
                    broadcastToLobby s1 clients lobbyId
                      (player_joined (players s1 (playerId ws)) lobby) (Some ws) @
                    broadcast clients (lobbies_updated (getPublicLobbies s1)))
           | (Inl err, s1) \<Rightarrow> (s1, sendToClient ws (error_envelope (error_message err))))
      | leave_lobby \<Rightarrow>
          (case leaveLobby e (playerId ws) s of
             (Inr leaveResult, s1) \<Rightarrow>
               (s1, sendToClient ws lobby_left @
                    (case leaveResult of
                       LobbyDeleted \<Rightarrow> []
                     | LobbyKept lobby \<Rightarrow>
                         broadcastToLobby s1 clients (lobbySubscriptions s1 (playerId ws))
                           (player_left (playerId ws) lobby) (Some ws)) @
                    broadcast clients (lobbies_updated (getPublicLobbies s1)))
           | (Inl err, s1) \<Rightarrow> (s1, sendToClient ws (error_envelope (error_message err))))
      | delist_lobby \<Rightarrow>
          let currentLobbyId = lobbySubscriptions s (playerId ws) in
          (case delistLobby currentLobbyId (playerId ws) s of
             (Inr _, s1) \<Rightarrow>
               (s1, broadcastToLobby s1 clients currentLobbyId lobby_delisted None @
                    broadcast clients (lobbies_updated (getPublicLobbies s1)))
           | (Inl err, s1) \<Rightarrow> (s1, sendToClient ws (error_envelope (error_message err))))
      | send_chat_message msg \<Rightarrow>
          let currentLobby = lobbySubscriptions s (playerId ws) in
          (case addChatMessage e currentLobby (playerId ws) msg s of
             (Inr chatMsg, s1) \<Rightarrow>
               (s1, broadcastToLobby s1 clients currentLobby (chat_message chatMsg) None)
           | (Inl err, s1) \<Rightarrow> (s1, sendToClient ws (error_envelope (error_message err))))
      | regenerate_password \<Rightarrow>
          let lobbyForPassword = lobbySubscriptions s (playerId ws) in
          (case regeneratePassword e lobbyForPassword (playerId ws) s of
             (Inr pw, s1) \<Rightarrow>
               (s1, broadcastToLobby s1 clients lobbyForPassword (password_updated pw) None)
           | (Inl err, s1) \<Rightarrow> (s1, sendToClient ws (error_envelope (error_message err))))
      | toggle_privacy \<Rightarrow>
          let lobbyForPrivacy = lobbySubscriptions s (playerId ws) in
          (case togglePrivacy lobbyForPrivacy (playerId ws) s of
             (Inr priv, s1) \<Rightarrow>
               (s1, broadcastToLobby s1 clients lobbyForPrivacy (privacy_updated priv) None @
                    broadcast clients (lobbies_updated (getPublicLobbies s1)))
           | (Inl err, s1) \<Rightarrow> (s1, sendToClient ws (error_envelope (error_message err))))
      | get_lobby_details \<Rightarrow>
          (case getLobbyDetails (lobbySubscriptions s (playerId ws)) (playerId ws) s of
             Inr d \<Rightarrow> (s, sendToClient ws (lobby_details d))
           | Inl err \<Rightarrow> (s, sendToClient ws (error_envelope (error_message err))))
      | unknown_type \<Rightarrow> (s, sendToClient ws (error_envelope ''Unknown message type''))
      | malformed \<Rightarrow> (s, sendToClient ws (error_envelope ''Invalid message format'')))"

text \<open>
  \<^verbatim>\<open>ws.on('close', ...)\<close>: the forced leave, the removal of the registry and subscription
  entries, and the list broadcast.
\<close>

definition on_close :: "client list \<Rightarrow> client \<Rightarrow> env \<Rightarrow> state \<Rightarrow> state \<times> delivery list" where
  "on_close clients ws e s =
     (let (leaveResult, s1) = leaveLobby e (playerId ws) s;
          sent = (case leaveResult of
                    Inr (LobbyKept lobby) \<Rightarrow>
                      broadcastToLobby s1 clients (lobbySubscriptions s1 (playerId ws))
                        (player_left (playerId ws) lobby) None
                  | _ \<Rightarrow> []);
          s2 = s1\<lparr>players := (players s1)(playerId ws := None)\<rparr>;
          s3 = s2\<lparr>lobbySubscriptions := (lobbySubscriptions s2)(playerId ws := None)\<rparr>
      in (s3, sent @ broadcast clients (lobbies_updated (getPublicLobbies s3))))"

text \<open>
  The server as a transition system: an event is a message from, or the closing of, one
  connection, together with the clients connected at that moment and the outside values
  the handler reads.
\<close>

datatype event = Message client command | Close client

definition handle :: "client list \<Rightarrow> env \<Rightarrow> event \<Rightarrow> state \<Rightarrow> state \<times> delivery list" where
  "handle clients e ev s =
     (case ev of Message ws cmd \<Rightarrow> on_message clients ws e cmd s
               | Close ws \<Rightarrow> on_close clients ws e s)"

text \<open>
  The states reachable from the empty server by events that satisfy \<open>ok\<close>, a condition on
  the state before the event, the outside values and the event. \<open>any_event\<close> admits all.
\<close>

inductive reachable :: "(state \<Rightarrow> env \<Rightarrow> event \<Rightarrow> bool) \<Rightarrow> state \<Rightarrow> bool"
  for ok :: "state \<Rightarrow> env \<Rightarrow> event \<Rightarrow> bool" where
  start: "reachable ok initial_state"
| after: "reachable ok s \<Longrightarrow> ok s e ev \<Longrightarrow> reachable ok (fst (handle clients e ev s))"

definition any_event :: "state \<Rightarrow> env \<Rightarrow> event \<Rightarrow> bool" where
  "any_event s e ev = True"

section \<open>Stated invariants\<close>

text \<open>
  Capacity: every lobby in the store has at most \<open>maxPlayers\<close> members.
  \<open>create_has_room\<close> admits the events whose \<^verbatim>\<open>create_lobby\<close>, if any, asks for at least
  one place or leaves \<^verbatim>\<open>maxPlayers\<close> out (the default is 3).
\<close>

definition capacity_ok :: "state \<Rightarrow> bool" where
  "capacity_ok s = list_all (\<lambda>(k, l). int (length (lobby_players l)) \<le> maxPlayers l) (lobbies s)"


text \<open>
  Membership: no connection id is in the member lists of two lobbies, and the connection
  ids with a subscription entry are exactly those in some member list.
\<close>

definition one_lobby_each :: "state \<Rightarrow> bool" where
  "one_lobby_each s =
     (\<forall>(k1, l1) \<in> set (lobbies s). \<forall>(k2, l2) \<in> set (lobbies s).
        \<forall>p \<in> set (lobby_players l1). p \<in> set (lobby_players l2) \<longrightarrow> k1 = k2)"

definition subscribed_iff_member :: "state \<Rightarrow> bool" where
  "subscribed_iff_member s =
     (\<forall>p. (lobbySubscriptions s p \<noteq> None) = (\<exists>(k, l) \<in> set (lobbies s). p \<in> set (lobby_players l)))"

definition membership_ok :: "state \<Rightarrow> bool" where
  "membership_ok s = (one_lobby_each s \<and> subscribed_iff_member s)"

text \<open>
  The form in which the handlers keep it: the subscription map sends a connection to
  lobby \<open>k\<close> exactly when lobby \<open>k\<close> exists and lists it.
\<close>

definition index_ok :: "state \<Rightarrow> bool" where
  "index_ok s =
     (\<forall>p k. (lobbySubscriptions s p = Some k) =
              (\<exists>l. map_of (lobbies s) k = Some l \<and> p \<in> set (lobby_players l)))"

text \<open>
  \<open>joins_from_outside\<close> admits the events in which a \<^verbatim>\<open>create_lobby\<close> comes from a
  connection without a subscription entry and draws a lobby id not in use, and a
  \<^verbatim>\<open>join_lobby\<close> comes from such a connection or fails.
\<close>

fun joins_from_outside :: "state \<Rightarrow> env \<Rightarrow> event \<Rightarrow> bool" where
  "joins_from_outside s e (Message ws (create_lobby ttl m)) =
     (lobbySubscriptions s (playerId ws) = None \<and> uuidv4 e 0 \<notin> fst ` set (lobbies s))"
| "joins_from_outside s e (Message ws (join_lobby lobbyId)) =
     (lobbySubscriptions s (playerId ws) = None \<or> isl (fst (joinLobby e lobbyId (playerId ws) s)))"
| "joins_from_outside s e ev = True"

section \<open>A concrete run\<close>

text \<open>
  Three open connections H, P and Q (player ids 2, 3, 4). The event numbered \<open>n\<close> reads
  the uuids \<open>Uuid n\<close>, \<open>Uuid (n + 1)\<close>, ... and the dates \<open>n\<close>, \<open>n + 1\<close>, ...
\<close>

definition env_at :: "nat \<Rightarrow> env" where
  "env_at n = \<lparr>uuidv4 = (\<lambda>i. Uuid (n + i)), new_Date = (\<lambda>i. n + i),
              random_index = (\<lambda>i. (n + i) mod 36)\<rparr>"

definition conn_H :: client where
  "conn_H = \<lparr>playerId = Uuid 2, isOpen = True\<rparr>"

definition conn_P :: client where
  "conn_P = \<lparr>playerId = Uuid 3, isOpen = True\<rparr>"

definition conn_Q :: client where
  "conn_Q = \<lparr>playerId = Uuid 4, isOpen = True\<rparr>"

definition everyone :: "client list" where
  "everyone = [conn_H, conn_P, conn_Q]"

fun run :: "(nat \<times> event) list \<Rightarrow> state \<Rightarrow> state" where
  "run [] s = s"
| "run ((n, ev) # evs) s = run evs (fst (handle everyone (env_at n) ev s))"

text \<open>
  H and P register, H creates lobby A for two players (\<open>state_A\<close>), then P joins it
  (\<open>state_AP\<close>); \<open>state_A_run\<close> and \<open>state_AP_run\<close> below show that the handlers
  produce exactly these states.
\<close>

definition registry_HP :: "uuid \<rightharpoonup> player" where
  "registry_HP = [Uuid 2 \<mapsto> \<lparr>player_id = Uuid 2, name = ''H'', level = 1\<rparr>,
                  Uuid 3 \<mapsto> \<lparr>player_id = Uuid 3, name = ''P'', level = 5\<rparr>]"

definition welcome_entry :: chatMessage where
  "welcome_entry = \<lparr>msg_id = Uuid 11, user = ''System'', message = ''Lobby created! Welcome!'',
                    timestamp = 11\<rparr>"

definition lobby_A :: lobby where
  "lobby_A = \<lparr>lobby_id = Uuid 10, title = ''A'', hostId = Uuid 2, lobby_players = [Uuid 2],
              maxPlayers = 2, password = generatePassword (env_at 10), isPrivate = False,
              createdAt = 10, chatMessages = [welcome_entry]\<rparr>"

definition state_A :: state where
  "state_A = \<lparr>lobbies = [(Uuid 10, lobby_A)], players = registry_HP,
              lobbySubscriptions = [Uuid 2 \<mapsto> Uuid 10]\<rparr>"

definition lobby_AP :: lobby where
  "lobby_AP = lobby_A\<lparr>lobby_players := [Uuid 2, Uuid 3],
                chatMessages := [welcome_entry,
                  \<lparr>msg_id = Uuid 20, user = ''System'', message = ''P joined the lobby'',
                   timestamp = 20\<rparr>]\<rparr>"

definition state_AP :: state where
  "state_AP = \<lparr>lobbies = [(Uuid 10, lobby_AP)], players = registry_HP,
               lobbySubscriptions = [Uuid 2 \<mapsto> Uuid 10, Uuid 3 \<mapsto> Uuid 10]\<rparr>"

text \<open>
  Then Q, who never registered, creates lobby B without giving \<open>maxPlayers\<close>
  (\<open>state_APB\<close>, shown reached by \<open>state_APB_run\<close>).
\<close>

definition lobby_B :: lobby where
  "lobby_B = \<lparr>lobby_id = Uuid 40, title = ''B'', hostId = Uuid 4, lobby_players = [Uuid 4],
              maxPlayers = 3, password = generatePassword (env_at 40), isPrivate = False,
              createdAt = 40,
              chatMessages = [\<lparr>msg_id = Uuid 41, user = ''System'',
                               message = ''Lobby created! Welcome!'', timestamp = 41\<rparr>]\<rparr>"

definition state_APB :: state where
  "state_APB = \<lparr>lobbies = [(Uuid 10, lobby_AP), (Uuid 40, lobby_B)], players = registry_HP,
       lobbySubscriptions = [Uuid 2 \<mapsto> Uuid 10, Uuid 3 \<mapsto> Uuid 10, Uuid 4 \<mapsto> Uuid 40]\<rparr>"

text \<open>\<open>n\<close> chat messages in a row from H, as the events numbered 100, 101, ...\<close>

definition chat_events :: "nat \<Rightarrow> (nat \<times> event) list" where
  "chat_events n = map (\<lambda>i. (100 + i, Message conn_H (send_chat_message ''hi''))) [0..<n]"

text \<open>The events of a run each satisfy \<open>ok\<close> in the state they meet.\<close>

fun admissible :: "(state \<Rightarrow> env \<Rightarrow> event \<Rightarrow> bool) \<Rightarrow> (nat \<times> event) list \<Rightarrow> state \<Rightarrow> bool" where
  "admissible ok [] s = True"
| "admissible ok ((n, ev) # evs) s =
     (ok s (env_at n) ev \<and> admissible ok evs (fst (handle everyone (env_at n) ev s)))"

section \<open>Basic facts\<close>

lemma lobbies_get_Some [simp]: "lobbies_get s (Some k) = map_of (lobbies s) k"
  by (simp add: lobbies_get_def)

lemma lobbies_get_None [simp]: "lobbies_get s None = None"
  by (simp add: lobbies_get_def)

lemma lobbies_get_SomeD:
  "lobbies_get s lobbyId = Some lobby \<Longrightarrow> \<exists>k. lobbyId = Some k \<and> map_of (lobbies s) k = Some lobby"
  by (cases lobbyId) simp_all

lemmas demo_defs = env_at_def conn_H_def conn_P_def conn_Q_def everyone_def registry_HP_def
  welcome_entry_def lobby_A_def state_A_def lobby_AP_def state_AP_def

lemma state_A_run:
  "run [(1, Message conn_H (register_player ''H'' None)),
        (2, Message conn_P (register_player ''P'' (Some 5))),
        (10, Message conn_H (create_lobby ''A'' (Some 2)))] initial_state = state_A"
  by (simp add: demo_defs initial_state_def handle_def on_message_def createLobby_def Let_def)

lemma state_AP_run:
  "run [(20, Message conn_P (join_lobby (Some (Uuid 10))))] state_A = state_AP"
  by (simp add: demo_defs handle_def on_message_def joinLobby_def Let_def
      lobbies_put_def name_or_def system_message_def)

lemma state_APB_run:
  "run [(40, Message conn_Q (create_lobby ''B'' None))] state_AP = state_APB"
  by (simp add: demo_defs lobby_B_def state_APB_def handle_def on_message_def createLobby_def Let_def)

section \<open>Joining a full lobby\<close>

text \<open>
  C7. A join attempt on a lobby whose member count equals its \<open>maxPlayers\<close> fails with
  \<open>Full\<close> (the source's 'Lobby is full'), whoever the player is, and returns the state it
  was given: the member list and everything else are unchanged.
\<close>

theorem join_full_lobby:
  assumes "lobbies_get s lobbyId = Some lobby"
      and "int (length (lobby_players lobby)) = maxPlayers lobby"
  shows "joinLobby e lobbyId p s = (Inl Full, s)"
  using assms by (simp add: joinLobby_def)

text \<open>Q tries to join lobby A, which holds H and P and was created for two players.\<close>

theorem join_full_lobby_witness:
  "lobbies_get state_AP (Some (Uuid 10)) = Some lobby_AP
   \<and> int (length (lobby_players lobby_AP)) = maxPlayers lobby_AP
   \<and> joinLobby (env_at 30) (Some (Uuid 10)) (Uuid 4) state_AP = (Inl Full, state_AP)"
proof -
  have found: "lobbies_get state_AP (Some (Uuid 10)) = Some lobby_AP"
    by (simp add: state_AP_def)
  have full: "int (length (lobby_players lobby_AP)) = maxPlayers lobby_AP"
    by (simp add: lobby_AP_def lobby_A_def)
  from join_full_lobby [OF found full] found full show ?thesis by simp
qed

section \<open>Host succession\<close>

text \<open>
  C6. Let \<open>p\<close> be the host of the lobby that the subscription map records for \<open>p\<close>, so
  that \<open>leaveLobby\<close> acts on this lobby. If \<open>p\<close> is its sole member, the call returns
  \<^verbatim>\<open>lobbyDeleted: true\<close> and the lobby is gone from the store. If other members remain,
  the lobby stays, its member list is the old one without \<open>p\<close>, its host is the first
  entry of that list (the earliest joiner still present), and the chat history has grown
  by the departure entry followed by the system entry announcing the new host.
\<close>

theorem host_leaves:
  assumes "lobbySubscriptions s p = Some k"
      and "map_of (lobbies s) k = Some lobby"
      and "hostId lobby = p"
  shows "(lobby_players lobby = [p] \<longrightarrow>
            fst (leaveLobby e p s) = Inr LobbyDeleted
          \<and> lobbies_get (snd (leaveLobby e p s)) (Some k) = None)
       \<and> (filter (\<lambda>i. i \<noteq> p) (lobby_players lobby) \<noteq> [] \<longrightarrow>
            (\<exists>lobby'. fst (leaveLobby e p s) = Inr (LobbyKept lobby')
               \<and> lobbies_get (snd (leaveLobby e p s)) (Some k) = Some lobby'
               \<and> lobby_players lobby' = filter (\<lambda>i. i \<noteq> p) (lobby_players lobby)
               \<and> hostId lobby' = lobby_players lobby' ! 0
               \<and> chatMessages lobby' = chatMessages lobby @
                   [system_message e 0 (name_or s p ''Player'' @ '' left the lobby''),
                    system_message e 1
                      (name_or s (lobby_players lobby' ! 0) ''Player'' @ '' is now the host'')]))"
  using assms
  by (simp add: leaveLobby_def Let_def lobbies_put_def lobbies_delete_def update_conv' delete_conv')

text \<open>H leaves lobby A alone (deleted), and H leaves lobby A while P is in it (P is host).\<close>

theorem host_leaves_witness:
  "lobbySubscriptions state_A (Uuid 2) = Some (Uuid 10)
   \<and> map_of (lobbies state_A) (Uuid 10) = Some lobby_A
   \<and> hostId lobby_A = Uuid 2 \<and> lobby_players lobby_A = [Uuid 2]
   \<and> fst (leaveLobby (env_at 30) (Uuid 2) state_A) = Inr LobbyDeleted
   \<and> lobbies_get (snd (leaveLobby (env_at 30) (Uuid 2) state_A)) (Some (Uuid 10)) = None
   \<and> lobbySubscriptions state_AP (Uuid 2) = Some (Uuid 10)
   \<and> map_of (lobbies state_AP) (Uuid 10) = Some lobby_AP
   \<and> hostId lobby_AP = Uuid 2 \<and> lobby_players lobby_AP = [Uuid 2, Uuid 3]
   \<and> (\<exists>lobby'. fst (leaveLobby (env_at 30) (Uuid 2) state_AP) = Inr (LobbyKept lobby')
         \<and> lobbies_get (snd (leaveLobby (env_at 30) (Uuid 2) state_AP)) (Some (Uuid 10)) = Some lobby'
         \<and> lobby_players lobby' = [Uuid 3] \<and> hostId lobby' = Uuid 3
         \<and> map message (chatMessages lobby') =
             [''Lobby created! Welcome!'', ''P joined the lobby'', ''H left the lobby'',
              ''P is now the host''])"
proof -
  have a: "lobbySubscriptions state_A (Uuid 2) = Some (Uuid 10)"
    "map_of (lobbies state_A) (Uuid 10) = Some lobby_A" "hostId lobby_A = Uuid 2"
    "lobby_players lobby_A = [Uuid 2]"
    by (simp_all add: state_A_def lobby_A_def)
  have b: "lobbySubscriptions state_AP (Uuid 2) = Some (Uuid 10)"
    "map_of (lobbies state_AP) (Uuid 10) = Some lobby_AP" "hostId lobby_AP = Uuid 2"
    "lobby_players lobby_AP = [Uuid 2, Uuid 3]"
    by (simp_all add: state_AP_def lobby_AP_def lobby_A_def)
  have n: "name_or state_AP (Uuid 2) ''Player'' = ''H''" "name_or state_AP (Uuid 3) ''Player'' = ''P''"
    by (simp_all add: name_or_def state_AP_def registry_HP_def)
  have c: "map message (chatMessages lobby_AP) = [''Lobby created! Welcome!'', ''P joined the lobby'']"
    by (simp add: lobby_AP_def welcome_entry_def)
  from host_leaves [OF a(1) a(2) a(3), of "env_at 30"] a
  have sole: "fst (leaveLobby (env_at 30) (Uuid 2) state_A) = Inr LobbyDeleted
          \<and> lobbies_get (snd (leaveLobby (env_at 30) (Uuid 2) state_A)) (Some (Uuid 10)) = None"
    by simp
  from host_leaves [OF b(1) b(2) b(3), of "env_at 30"] b n c
  have promoted: "\<exists>lobby'. fst (leaveLobby (env_at 30) (Uuid 2) state_AP) = Inr (LobbyKept lobby')
         \<and> lobbies_get (snd (leaveLobby (env_at 30) (Uuid 2) state_AP)) (Some (Uuid 10)) = Some lobby'
         \<and> lobby_players lobby' = [Uuid 3] \<and> hostId lobby' = Uuid 3
         \<and> map message (chatMessages lobby') =
             [''Lobby created! Welcome!'', ''P joined the lobby'', ''H left the lobby'',
              ''P is now the host'']"
    by (auto simp: system_message_def)
  from a b sole promoted show ?thesis by simp
qed

section \<open>Failed operations\<close>

text \<open>
  C8. Whenever \<open>joinLobby\<close>, \<open>leaveLobby\<close>, \<open>delistLobby\<close>, \<open>addChatMessage\<close>,
  \<open>regeneratePassword\<close> or \<open>togglePrivacy\<close> returns a failure, the state it returns is
  the state it was given: lobbies, registry and subscriptions are untouched
  (\<open>getLobbyDetails\<close> returns no state at all). In particular the three host-only
  operations, called on an existing lobby by anyone but its host, fail with \<open>Forbidden\<close>
  and change nothing.
\<close>

theorem failed_operation_changes_nothing:
  "(fst (joinLobby e lobbyId p s) = Inl err \<longrightarrow> snd (joinLobby e lobbyId p s) = s)
 \<and> (fst (leaveLobby e p s) = Inl err \<longrightarrow> snd (leaveLobby e p s) = s)
 \<and> (fst (delistLobby lobbyId p s) = Inl err \<longrightarrow> snd (delistLobby lobbyId p s) = s)
 \<and> (fst (addChatMessage e lobbyId p msg s) = Inl err \<longrightarrow>
      snd (addChatMessage e lobbyId p msg s) = s)
 \<and> (fst (regeneratePassword e lobbyId p s) = Inl err \<longrightarrow>
      snd (regeneratePassword e lobbyId p s) = s)
 \<and> (fst (togglePrivacy lobbyId p s) = Inl err \<longrightarrow> snd (togglePrivacy lobbyId p s) = s)
 \<and> (lobbies_get s lobbyId = Some lobby \<and> hostId lobby \<noteq> p \<longrightarrow>
      delistLobby lobbyId p s = (Inl (Forbidden Delist), s)
    \<and> regeneratePassword e lobbyId p s = (Inl (Forbidden RegeneratePassword), s)
    \<and> togglePrivacy lobbyId p s = (Inl (Forbidden ChangePrivacy), s))"
  by (simp add: joinLobby_def leaveLobby_def delistLobby_def addChatMessage_def
        regeneratePassword_def togglePrivacy_def Let_def split: option.splits)

text \<open>
  In lobby A with host H and member P: P calls the host-only operations, P joins again
  (the lobby is full), Q leaves without being anywhere, Q chats without being a member.
\<close>

theorem failed_operation_changes_nothing_witness:
  "lobbies_get state_AP (Some (Uuid 10)) = Some lobby_AP \<and> hostId lobby_AP \<noteq> Uuid 3
   \<and> delistLobby (Some (Uuid 10)) (Uuid 3) state_AP = (Inl (Forbidden Delist), state_AP)
   \<and> regeneratePassword (env_at 30) (Some (Uuid 10)) (Uuid 3) state_AP
       = (Inl (Forbidden RegeneratePassword), state_AP)
   \<and> togglePrivacy (Some (Uuid 10)) (Uuid 3) state_AP = (Inl (Forbidden ChangePrivacy), state_AP)
   \<and> fst (joinLobby (env_at 30) (Some (Uuid 10)) (Uuid 3) state_AP) = Inl Full
   \<and> snd (joinLobby (env_at 30) (Some (Uuid 10)) (Uuid 3) state_AP) = state_AP
   \<and> fst (leaveLobby (env_at 30) (Uuid 4) state_AP) = Inl NotInLobby
   \<and> snd (leaveLobby (env_at 30) (Uuid 4) state_AP) = state_AP
   \<and> fst (addChatMessage (env_at 30) (Some (Uuid 10)) (Uuid 4) ''hi'' state_AP) = Inl NotMember
   \<and> snd (addChatMessage (env_at 30) (Some (Uuid 10)) (Uuid 4) ''hi'' state_AP) = state_AP"
proof -
  have found: "lobbies_get state_AP (Some (Uuid 10)) = Some lobby_AP"
    by (simp add: state_AP_def)
  have other: "hostId lobby_AP \<noteq> Uuid 3"
    by (simp add: lobby_AP_def lobby_A_def)
  have j: "fst (joinLobby (env_at 30) (Some (Uuid 10)) (Uuid 3) state_AP) = Inl Full"
    by (simp add: joinLobby_def state_AP_def lobby_AP_def lobby_A_def)
  have l: "fst (leaveLobby (env_at 30) (Uuid 4) state_AP) = Inl NotInLobby"
    by (simp add: leaveLobby_def state_AP_def)
  have c: "fst (addChatMessage (env_at 30) (Some (Uuid 10)) (Uuid 4) ''hi'' state_AP) = Inl NotMember"
    by (simp add: addChatMessage_def state_AP_def lobby_AP_def lobby_A_def)
  note hostonly = failed_operation_changes_nothing
    [of "env_at 30" "Some (Uuid 10)" "Uuid 3" state_AP "Forbidden Delist" "''hi''" lobby_AP]
  note joining = failed_operation_changes_nothing
    [of "env_at 30" "Some (Uuid 10)" "Uuid 3" state_AP Full "''hi''" lobby_AP]
  note leaving = failed_operation_changes_nothing
    [of "env_at 30" "Some (Uuid 10)" "Uuid 4" state_AP NotInLobby "''hi''" lobby_AP]
  note chatting = failed_operation_changes_nothing
    [of "env_at 30" "Some (Uuid 10)" "Uuid 4" state_AP NotMember "''hi''" lobby_AP]
  from hostonly joining leaving chatting found other j l c show ?thesis by simp
qed

section \<open>Privacy toggle\<close>

text \<open>
  C9. For an existing lobby and its host, calling \<open>togglePrivacy\<close> twice in a row
  succeeds both times, first reporting the negated flag and then the original one; after
  the second call the lobby's \<open>isPrivate\<close> is what it was, and so is the whole state.
\<close>

theorem togglePrivacy_twice:
  assumes "lobbies_get s lobbyId = Some lobby" and "hostId lobby = p"
  shows "fst (togglePrivacy lobbyId p s) = Inr (\<not> isPrivate lobby)
       \<and> fst (togglePrivacy lobbyId p (snd (togglePrivacy lobbyId p s))) = Inr (isPrivate lobby)
       \<and> map_option isPrivate
            (lobbies_get (snd (togglePrivacy lobbyId p (snd (togglePrivacy lobbyId p s)))) lobbyId)
           = Some (isPrivate lobby)
       \<and> snd (togglePrivacy lobbyId p (snd (togglePrivacy lobbyId p s))) = s"
proof -
  from assms(1) obtain k where k: "lobbyId = Some k" "map_of (lobbies s) k = Some lobby"
    by (auto dest: lobbies_get_SomeD)
  show ?thesis
    using k assms(2)
    by (simp add: togglePrivacy_def lobbies_put_def update_conv' AList.update_triv)
qed

text \<open>H toggles the public lobby A twice.\<close>

theorem togglePrivacy_twice_witness:
  "lobbies_get state_AP (Some (Uuid 10)) = Some lobby_AP \<and> hostId lobby_AP = Uuid 2
   \<and> fst (togglePrivacy (Some (Uuid 10)) (Uuid 2) state_AP) = Inr True
   \<and> fst (togglePrivacy (Some (Uuid 10)) (Uuid 2)
            (snd (togglePrivacy (Some (Uuid 10)) (Uuid 2) state_AP))) = Inr False
   \<and> snd (togglePrivacy (Some (Uuid 10)) (Uuid 2)
            (snd (togglePrivacy (Some (Uuid 10)) (Uuid 2) state_AP))) = state_AP"
proof -
  have found: "lobbies_get state_AP (Some (Uuid 10)) = Some lobby_AP"
    by (simp add: state_AP_def)
  have host: "hostId lobby_AP = Uuid 2"
    by (simp add: lobby_AP_def lobby_A_def)
  have public: "isPrivate lobby_AP = False"
    by (simp add: lobby_AP_def lobby_A_def)
  from togglePrivacy_twice [OF found host] found host public show ?thesis by simp
qed

section \<open>Resolved player lists\<close>

lemma filter_Boolean_eq:
  "filter_Boolean (map f xs) = map (\<lambda>x. the (f x)) (filter (\<lambda>x. f x \<noteq> None) xs)"
  by (induction xs) auto

lemma length_filter_Boolean_less:
  "length (filter_Boolean (map f xs)) < length xs \<longleftrightarrow> (\<exists>x\<in>set xs. f x = None)"
proof -
  have "length (filter (\<lambda>x. f x \<noteq> None) xs) < length xs \<longleftrightarrow> (\<exists>x\<in>set xs. f x \<noteq> None \<longrightarrow> False)"
    by (induction xs) (auto simp: less_Suc_eq_le)
  then show ?thesis by (simp only: filter_Boolean_eq length_map) simp
qed

lemma resolve_players_eq:
  "resolve_players s lobby =
     map (\<lambda>pid. the (players s pid)) (filter (\<lambda>pid. players s pid \<noteq> None) (lobby_players lobby))"
  unfolding resolve_players_def by (rule filter_Boolean_eq)

text \<open>
  C10. The player list of a view returned by \<open>getLobbyDetails\<close>, and of every summary in
  \<open>getPublicLobbies\<close>, holds the registry records of exactly those member ids that have
  one, in member order; ids without a registry entry are dropped without notice. So the
  list is strictly shorter than the member list precisely when some member is
  unregistered.
\<close>

theorem unregistered_members_dropped:
  "(\<forall>d. getLobbyDetails lobbyId p s = Inr d \<longrightarrow>
      details_players d =
        map (\<lambda>pid. the (players s pid))
          (filter (\<lambda>pid. players s pid \<noteq> None) (lobby_players (details_lobby d))))
 \<and> map summary_players (getPublicLobbies s) =
      map (\<lambda>lobby. map (\<lambda>pid. the (players s pid))
                      (filter (\<lambda>pid. players s pid \<noteq> None) (lobby_players lobby)))
        (filter (\<lambda>lobby. \<not> isPrivate lobby) (map snd (lobbies s)))
 \<and> (length (resolve_players s lobby) < length (lobby_players lobby)
      \<longleftrightarrow> (\<exists>pid\<in>set (lobby_players lobby). players s pid = None))"
proof (intro conjI allI impI)
  fix d assume "getLobbyDetails lobbyId p s = Inr d"
  then have "details_players d = resolve_players s (details_lobby d)"
    by (auto simp: getLobbyDetails_def split: option.splits if_splits)
  then show "details_players d =
        map (\<lambda>pid. the (players s pid))
          (filter (\<lambda>pid. players s pid \<noteq> None) (lobby_players (details_lobby d)))"
    by (simp only: resolve_players_eq)
next
  show "map summary_players (getPublicLobbies s) =
      map (\<lambda>lobby. map (\<lambda>pid. the (players s pid))
                      (filter (\<lambda>pid. players s pid \<noteq> None) (lobby_players lobby)))
        (filter (\<lambda>lobby. \<not> isPrivate lobby) (map snd (lobbies s)))"
    by (simp add: getPublicLobbies_def comp_def resolve_players_eq del: not_None_eq)
next
  show "length (resolve_players s lobby) < length (lobby_players lobby)
      \<longleftrightarrow> (\<exists>pid\<in>set (lobby_players lobby). players s pid = None)"
    unfolding resolve_players_def by (rule length_filter_Boolean_less)
qed

text \<open>
  Lobby B has the single member Q, who never registered: its details and its summary
  show no players at all.
\<close>

theorem unregistered_members_dropped_witness:
  "getLobbyDetails (Some (Uuid 40)) (Uuid 4) state_APB
     = Inr \<lparr>details_lobby = lobby_B, details_players = []\<rparr>
   \<and> lobby_players lobby_B = [Uuid 4] \<and> players state_APB (Uuid 4) = None
   \<and> map summary_players (getPublicLobbies state_APB)
       = [[\<lparr>player_id = Uuid 2, name = ''H'', level = 1\<rparr>,
           \<lparr>player_id = Uuid 3, name = ''P'', level = 5\<rparr>], []]
   \<and> length (resolve_players state_APB lobby_B) < length (lobby_players lobby_B)"
proof -
  have g: "getLobbyDetails (Some (Uuid 40)) (Uuid 4) state_APB
             = Inr \<lparr>details_lobby = lobby_B, details_players = resolve_players state_APB lobby_B\<rparr>"
    by (simp add: getLobbyDetails_def state_APB_def lobby_B_def)
  have m: "lobby_players lobby_B = [Uuid 4]"
    by (simp add: lobby_B_def)
  have u: "players state_APB (Uuid 4) = None"
    by (simp add: state_APB_def registry_HP_def)
  have l: "map snd (lobbies state_APB) = [lobby_AP, lobby_B]"
    by (simp add: state_APB_def)
  have pub: "\<not> isPrivate lobby_AP" "\<not> isPrivate lobby_B"
    by (simp_all add: lobby_AP_def lobby_A_def lobby_B_def)
  have m2: "lobby_players lobby_AP = [Uuid 2, Uuid 3]"
    by (simp add: lobby_AP_def)
  have r: "players state_APB (Uuid 2) = Some \<lparr>player_id = Uuid 2, name = ''H'', level = 1\<rparr>"
    "players state_APB (Uuid 3) = Some \<lparr>player_id = Uuid 3, name = ''P'', level = 5\<rparr>"
    by (simp_all add: state_APB_def registry_HP_def)
  note t = unregistered_members_dropped [of "Some (Uuid 40)" "Uuid 4" state_APB lobby_B]
  from t [THEN conjunct1, rule_format, OF g]
  have d: "resolve_players state_APB lobby_B = []"
    by (simp add: m u)
  from t [THEN conjunct2, THEN conjunct1]
  have s: "map summary_players (getPublicLobbies state_APB)
       = [[\<lparr>player_id = Uuid 2, name = ''H'', level = 1\<rparr>,
           \<lparr>player_id = Uuid 3, name = ''P'', level = 5\<rparr>], []]"
    by (simp add: l pub m m2 r u)
  from t [THEN conjunct2, THEN conjunct2]
  have n: "length (resolve_players state_APB lobby_B) < length (lobby_players lobby_B)"
    by (simp add: m u)
  from g d m u s n show ?thesis by simp
qed

section \<open>Notifications after a leave\<close>

text \<open>
  \<open>leaveLobby\<close> removes the subscription entry of the leaver before it returns, and both
  handlers look the lobby up through that entry afterwards. So \<open>broadcastToLobby\<close> is
  called with \<^verbatim>\<open>undefined\<close> and sends nothing: no \<^verbatim>\<open>player_left\<close> ever leaves the server.
\<close>

lemma leaveLobby_clears_subscription:
  "leaveLobby e p s = (Inr r, s1) \<Longrightarrow> lobbySubscriptions s1 p = None"
  by (auto simp: leaveLobby_def Let_def lobbies_put_def lobbies_delete_def
      split: option.splits if_splits)

lemma broadcastToLobby_None [simp]: "broadcastToLobby s clients None msg ex = []"
  by (simp add: broadcastToLobby_def)

lemma set_broadcast: "set (broadcast clients msg) \<subseteq> UNIV \<times> {msg}"
  by (auto simp: broadcast_def)

lemma leave_lobby_sends_no_player_left:
  "(c, player_left q l) \<notin> set (snd (on_message clients ws e leave_lobby s))"
proof (cases "leaveLobby e (playerId ws) s")
  case (Pair r s1)
  show ?thesis
  proof (cases r)
    case (Inl err)
    with Pair show ?thesis by (simp add: on_message_def sendToClient_def)
  next
    case (Inr res)
    with Pair have "lobbySubscriptions s1 (playerId ws) = None"
      by (simp add: leaveLobby_clears_subscription)
    with Pair Inr show ?thesis
      by (auto simp: on_message_def sendToClient_def broadcast_def split: leave_result.splits)
  qed
qed

lemma close_sends_no_player_left:
  "(c, player_left q l) \<notin> set (snd (on_close clients ws e s))"
proof (cases "leaveLobby e (playerId ws) s")
  case (Pair r s1)
  show ?thesis
  proof (cases r)
    case (Inl err)
    with Pair show ?thesis by (auto simp: on_close_def Let_def broadcast_def)
  next
    case (Inr res)
    with Pair have "lobbySubscriptions s1 (playerId ws) = None"
      by (simp add: leaveLobby_clears_subscription)
    with Pair Inr show ?thesis
      by (auto simp: on_close_def Let_def broadcast_def split: leave_result.splits)
  qed
qed

text \<open>
  C4. The claim is that after a leave that keeps the lobby, every remaining member receives
  \<^verbatim>\<open>player_left\<close>. Run on lobby A with host H and member P, all three connections open:
  P leaves, the lobby stays with H as member, and H is sent only \<^verbatim>\<open>lobbies_updated\<close>; the
  same when P's connection closes instead.
\<close>

theorem leave_lobby_notifies_nobody:
  "map (\<lambda>(k, l). (k, hostId l, lobby_players l))
       (lobbies (fst (handle everyone (env_at 30) (Message conn_P leave_lobby) state_AP)))
     = [(Uuid 10, Uuid 2, [Uuid 2])]
   \<and> receipts (snd (handle everyone (env_at 30) (Message conn_P leave_lobby) state_AP))
     = [(Uuid 3, ''lobby_left''), (Uuid 2, ''lobbies_updated''), (Uuid 3, ''lobbies_updated''),
        (Uuid 4, ''lobbies_updated'')]
   \<and> map (\<lambda>(k, l). (k, hostId l, lobby_players l))
       (lobbies (fst (handle [conn_H, conn_Q] (env_at 30) (Close conn_P) state_AP)))
     = [(Uuid 10, Uuid 2, [Uuid 2])]
   \<and> receipts (snd (handle [conn_H, conn_Q] (env_at 30) (Close conn_P) state_AP))
     = [(Uuid 2, ''lobbies_updated''), (Uuid 4, ''lobbies_updated'')]"
  by (simp add: receipts_def handle_def on_message_def on_close_def leaveLobby_def Let_def
      lobbies_put_def broadcastToLobby_def broadcast_def sendToClient_def
      state_AP_def lobby_AP_def lobby_A_def everyone_def conn_H_def conn_P_def conn_Q_def)

section \<open>Notifications after a delist\<close>

text \<open>
  A successful \<open>delistLobby\<close> removes the lobby and the subscription entry of each of its
  members. The handler calls \<open>broadcastToLobby\<close> after that, which finds no lobby under
  the id and returns: no \<^verbatim>\<open>lobby_delisted\<close> ever leaves the server.
\<close>

lemma delistLobby_removes_lobby:
  "delistLobby lobbyId p s = (Inr r, s1) \<Longrightarrow> lobbies_get s1 lobbyId = None"
  by (cases lobbyId)
     (auto simp: delistLobby_def Let_def lobbies_delete_def delete_conv'
      split: option.splits if_splits)

lemma fold_clear: "fold (\<lambda>pid m. m(pid := None)) ps m q = (if q \<in> set ps then None else m q)"
  by (induction ps arbitrary: m) auto

lemma delistLobby_clears_subscriptions:
  "delistLobby lobbyId p s = (Inr r, s1) \<Longrightarrow> lobbies_get s lobbyId = Some lobby \<Longrightarrow>
   q \<in> set (lobby_players lobby) \<Longrightarrow> lobbySubscriptions s1 q = None"
  by (cases lobbyId)
     (auto simp: delistLobby_def Let_def lobbies_delete_def fold_clear
      split: option.splits if_splits)

lemma delist_lobby_sends_no_lobby_delisted:
  "(c, lobby_delisted) \<notin> set (snd (on_message clients ws e delist_lobby s))"
proof (cases "delistLobby (lobbySubscriptions s (playerId ws)) (playerId ws) s")
  case (Pair r s1)
  show ?thesis
  proof (cases r)
    case (Inl err)
    with Pair show ?thesis by (simp add: on_message_def sendToClient_def)
  next
    case (Inr u)
    with Pair have "lobbies_get s1 (lobbySubscriptions s (playerId ws)) = None"
      by (simp add: delistLobby_removes_lobby)
    with Pair Inr show ?thesis
      by (auto simp: on_message_def broadcastToLobby_def broadcast_def)
  qed
qed

text \<open>
  C5. The claim is that a successful delist by the host removes the lobby, clears every
  former member's subscription entry and sends \<^verbatim>\<open>lobby_delisted\<close> to every former member.
  Run on lobby A with host H and member P, all connections open: after H's delist the
  store and the subscription map are empty, and the only envelopes sent are the three
  \<^verbatim>\<open>lobbies_updated\<close>.
\<close>

theorem delist_lobby_notifies_nobody:
  "fst (handle everyone (env_at 30) (Message conn_H delist_lobby) state_AP)
     = \<lparr>lobbies = [], players = registry_HP, lobbySubscriptions = Map.empty\<rparr>
   \<and> receipts (snd (handle everyone (env_at 30) (Message conn_H delist_lobby) state_AP))
     = [(Uuid 2, ''lobbies_updated''), (Uuid 3, ''lobbies_updated''), (Uuid 4, ''lobbies_updated'')]"
  by (simp add: receipts_def handle_def on_message_def delistLobby_def Let_def
      lobbies_delete_def broadcastToLobby_def broadcast_def sendToClient_def
      state_AP_def lobby_AP_def lobby_A_def everyone_def conn_H_def conn_P_def conn_Q_def)

section \<open>Length of the chat history\<close>

text \<open>
  \<open>addChatMessage\<close> keeps the last 100 entries of the history with the new entry
  appended, so the oldest entries go first and the result never exceeds 100.
  \<open>joinLobby\<close> (and \<open>leaveLobby\<close>, see \<open>host_leaves\<close>) appends its system entries and
  keeps everything.
\<close>

lemma run_append: "run (xs @ ys) s = run ys (run xs s)"
  by (induction xs arbitrary: s) auto

lemma length_slice_last: "length (slice_last n xs) = min n (length xs)"
  by (auto simp: slice_last_def)

lemma addChatMessage_history:
  assumes "addChatMessage e lobbyId p msg s = (Inr m, s1)"
      and "lobbies_get s lobbyId = Some lobby"
  shows "\<exists>lobby1. lobbies_get s1 lobbyId = Some lobby1
           \<and> chatMessages lobby1 = slice_last 100 (chatMessages lobby @ [m])
           \<and> length (chatMessages lobby1) \<le> 100"
proof -
  from assms(2) obtain k where k: "lobbyId = Some k" "map_of (lobbies s) k = Some lobby"
    by (auto dest: lobbies_get_SomeD)
  with assms(1) show ?thesis
    by (auto simp: addChatMessage_def Let_def lobbies_put_def update_conv' slice_last_def
        split: if_splits)
qed

lemma joinLobby_history:
  assumes "joinLobby e lobbyId p s = (Inr lobby1, s1)"
      and "lobbies_get s lobbyId = Some lobby"
  shows "lobbies_get s1 lobbyId = Some lobby1
       \<and> length (chatMessages lobby1) = Suc (length (chatMessages lobby))"
proof -
  from assms(2) obtain k where k: "lobbyId = Some k" "map_of (lobbies s) k = Some lobby"
    by (auto dest: lobbies_get_SomeD)
  with assms(1) show ?thesis
    by (auto simp: joinLobby_def Let_def lobbies_put_def update_conv' split: if_splits)
qed

lemma host_chat_step:
  assumes "lobbies s = [(Uuid 10, l)]" and "lobby_players l = [Uuid 2]" and "maxPlayers l = 2"
      and "lobbySubscriptions s (Uuid 2) = Some (Uuid 10)"
      and "length (chatMessages l) = n" and "n < 100"
  shows "\<exists>l'. lobbies (fst (handle everyone (env_at k) (Message conn_H (send_chat_message msg)) s))
                = [(Uuid 10, l')]
           \<and> lobby_players l' = [Uuid 2] \<and> maxPlayers l' = 2
           \<and> lobbySubscriptions
                (fst (handle everyone (env_at k) (Message conn_H (send_chat_message msg)) s)) (Uuid 2)
                = Some (Uuid 10)
           \<and> length (chatMessages l') = Suc n"
  using assms
  by (simp add: handle_def on_message_def addChatMessage_def Let_def lobbies_put_def conn_H_def)

lemma host_chats:
  "\<exists>l. lobbies (run (chat_events n) state_A) = [(Uuid 10, l)]
      \<and> lobby_players l = [Uuid 2] \<and> maxPlayers l = 2
      \<and> lobbySubscriptions (run (chat_events n) state_A) (Uuid 2) = Some (Uuid 10)
      \<and> (n < 100 \<longrightarrow> length (chatMessages l) = Suc n)"
proof (induction n)
  case 0
  show ?case
    by (simp add: chat_events_def state_A_def lobby_A_def)
next
  case (Suc n)
  then obtain l where l: "lobbies (run (chat_events n) state_A) = [(Uuid 10, l)]"
      "lobby_players l = [Uuid 2]" "maxPlayers l = 2"
      "lobbySubscriptions (run (chat_events n) state_A) (Uuid 2) = Some (Uuid 10)"
      "n < 100 \<longrightarrow> length (chatMessages l) = Suc n"
    by blast
  have split: "run (chat_events (Suc n)) state_A =
      fst (handle everyone (env_at (100 + n)) (Message conn_H (send_chat_message ''hi''))
             (run (chat_events n) state_A))"
    by (simp add: chat_events_def run_append)
  show ?case
  proof (cases "Suc n < 100")
    case True
    with l have len: "length (chatMessages l) = Suc n" by simp
    from host_chat_step [OF l(1) l(2) l(3) l(4) len True, of "100 + n" "''hi''"]
    show ?thesis unfolding split by auto
  next
    case False
    from l(1) l(2) l(3) l(4)
    have "\<exists>l'. lobbies (fst (handle everyone (env_at (100 + n))
                     (Message conn_H (send_chat_message ''hi'')) (run (chat_events n) state_A)))
                = [(Uuid 10, l')]
           \<and> lobby_players l' = [Uuid 2] \<and> maxPlayers l' = 2
           \<and> lobbySubscriptions (fst (handle everyone (env_at (100 + n))
                     (Message conn_H (send_chat_message ''hi'')) (run (chat_events n) state_A)))
                (Uuid 2) = Some (Uuid 10)"
      by (simp add: handle_def on_message_def addChatMessage_def Let_def lobbies_put_def conn_H_def)
    with False show ?thesis unfolding split by auto
  qed
qed

text \<open>
  C3. The claim is that the chat history holds at most 100 entries after every operation.
  Run: H creates lobby A (one entry) and sends 99 chat messages, which gives exactly 100
  entries; then P joins, and the history holds 101.
\<close>

theorem join_overflows_chat_history:
  "map (\<lambda>(k, l). (k, lobby_players l, length (chatMessages l)))
       (lobbies (run (chat_events 99) state_A))
     = [(Uuid 10, [Uuid 2], 100)]
   \<and> map (\<lambda>(k, l). (k, lobby_players l, length (chatMessages l)))
       (lobbies (run (chat_events 99 @ [(20, Message conn_P (join_lobby (Some (Uuid 10))))]) state_A))
     = [(Uuid 10, [Uuid 2, Uuid 3], 101)]"
proof -
  from host_chats [of 99] obtain l where l: "lobbies (run (chat_events 99) state_A) = [(Uuid 10, l)]"
      "lobby_players l = [Uuid 2]" "maxPlayers l = 2" "length (chatMessages l) = 100"
    by auto
  then show ?thesis
    by (simp add: run_append handle_def on_message_def joinLobby_def Let_def lobbies_put_def
        conn_P_def)
qed

section \<open>Capacity\<close>

lemma run_reachable:
  "reachable ok s \<Longrightarrow> admissible ok evs s \<Longrightarrow> reachable ok (run evs s)"
proof (induction evs arbitrary: s)
  case Nil
  then show ?case by simp
next
  case (Cons a evs)
  obtain n ev where a: "a = (n, ev)" by (cases a)
  from Cons.prems have "reachable ok (fst (handle everyone (env_at n) ev s))"
    unfolding a by (auto intro: reachable.after)
  with Cons.prems Cons.IH show ?case unfolding a by simp
qed






lemma capacity_subs [simp]: "capacity_ok (s\<lparr>lobbySubscriptions := m\<rparr>) = capacity_ok s"
  by (simp add: capacity_ok_def)

lemma capacity_players [simp]: "capacity_ok (s\<lparr>players := m\<rparr>) = capacity_ok s"
  by (simp add: capacity_ok_def)









lemma fst_on_message:
  "fst (on_message clients ws e cmd s) =
     (case cmd of
        register_player nm lvl \<Rightarrow>
          s\<lparr>players := (players s)(playerId ws \<mapsto>
               \<lparr>player_id = playerId ws, name = nm,
                level = (case lvl of None \<Rightarrow> 1 | Some v \<Rightarrow> if v = 0 then 1 else v)\<rparr>)\<rparr>
      | create_lobby ttl m \<Rightarrow> snd (createLobby e ttl (playerId ws) m s)
      | join_lobby lobbyId \<Rightarrow> snd (joinLobby e lobbyId (playerId ws) s)
      | leave_lobby \<Rightarrow> snd (leaveLobby e (playerId ws) s)
      | delist_lobby \<Rightarrow> snd (delistLobby (lobbySubscriptions s (playerId ws)) (playerId ws) s)
      | send_chat_message msg \<Rightarrow>
          snd (addChatMessage e (lobbySubscriptions s (playerId ws)) (playerId ws) msg s)
      | regenerate_password \<Rightarrow>
          snd (regeneratePassword e (lobbySubscriptions s (playerId ws)) (playerId ws) s)
      | toggle_privacy \<Rightarrow> snd (togglePrivacy (lobbySubscriptions s (playerId ws)) (playerId ws) s)
      | _ \<Rightarrow> s)"
  by (cases cmd)
     (auto simp: on_message_def Let_def split: prod.splits sum.splits)

lemma fst_on_close:
  "fst (on_close clients ws e s) =
     (snd (leaveLobby e (playerId ws) s))
       \<lparr>players := (players (snd (leaveLobby e (playerId ws) s)))(playerId ws := None),
        lobbySubscriptions :=
          (lobbySubscriptions (snd (leaveLobby e (playerId ws) s)))(playerId ws := None)\<rparr>"
  by (simp add: on_close_def Let_def split: prod.splits)





section \<open>Membership and the subscription map\<close>

lemma index_membership: "index_ok s \<Longrightarrow> distinct (map fst (lobbies s)) \<Longrightarrow> membership_ok s"
proof -
  assume ok: "index_ok s" and d: "distinct (map fst (lobbies s))"
  then have i: "\<And>p k. (lobbySubscriptions s p = Some k) =
               (\<exists>l. map_of (lobbies s) k = Some l \<and> p \<in> set (lobby_players l))"
    by (simp add: index_ok_def)
  have one: "one_lobby_each s"
    unfolding one_lobby_each_def
  proof (clarify)
    fix k1 l1 k2 l2 p
    assume "(k1, l1) \<in> set (lobbies s)" "(k2, l2) \<in> set (lobbies s)"
      "p \<in> set (lobby_players l1)" "p \<in> set (lobby_players l2)"
    with d have "lobbySubscriptions s p = Some k1" "lobbySubscriptions s p = Some k2"
      by (auto simp: i)
    then show "k1 = k2" by simp
  qed
  have sub: "subscribed_iff_member s"
    unfolding subscribed_iff_member_def
  proof
    fix p
    have "(lobbySubscriptions s p \<noteq> None) = (\<exists>k. lobbySubscriptions s p = Some k)" by auto
    also have "\<dots> = (\<exists>k l. map_of (lobbies s) k = Some l \<and> p \<in> set (lobby_players l))"
      by (simp add: i)
    also have "\<dots> = (\<exists>(k, l) \<in> set (lobbies s). p \<in> set (lobby_players l))"
      using d by auto
    finally show "(lobbySubscriptions s p \<noteq> None) =
        (\<exists>(k, l) \<in> set (lobbies s). p \<in> set (lobby_players l))" .
  qed
  from one sub show ?thesis by (simp add: membership_ok_def)
qed

lemma index_okI:
  assumes "\<And>q k. lobbySubscriptions s q = Some k \<Longrightarrow>
             \<exists>l. map_of (lobbies s) k = Some l \<and> q \<in> set (lobby_players l)"
      and "\<And>q k l. map_of (lobbies s) k = Some l \<Longrightarrow> q \<in> set (lobby_players l) \<Longrightarrow>
             lobbySubscriptions s q = Some k"
  shows "index_ok s"
  unfolding index_ok_def using assms by blast

lemma index_subscribed:
  "index_ok s \<Longrightarrow> lobbySubscriptions s q = Some k \<Longrightarrow>
   \<exists>l. map_of (lobbies s) k = Some l \<and> q \<in> set (lobby_players l)"
  by (simp add: index_ok_def)

lemma index_member:
  "index_ok s \<Longrightarrow> map_of (lobbies s) k = Some l \<Longrightarrow> q \<in> set (lobby_players l) \<Longrightarrow>
   lobbySubscriptions s q = Some k"
  unfolding index_ok_def by blast

lemma index_put_same_players:
  assumes "index_ok s" and "map_of (lobbies s) k = Some l" and "lobby_players l' = lobby_players l"
  shows "index_ok (lobbies_put (Some k) l' s)"
proof (rule index_okI)
  fix q k'
  assume "lobbySubscriptions (lobbies_put (Some k) l' s) q = Some k'"
  then have "lobbySubscriptions s q = Some k'" by (simp add: lobbies_put_def)
  from index_subscribed [OF assms(1) this] assms(2,3)
  show "\<exists>l. map_of (lobbies (lobbies_put (Some k) l' s)) k' = Some l \<and> q \<in> set (lobby_players l)"
    by (auto simp: lobbies_put_def update_conv')
next
  fix q k' la
  assume "map_of (lobbies (lobbies_put (Some k) l' s)) k' = Some la" "q \<in> set (lobby_players la)"
  with assms(2,3) have "\<exists>lb. map_of (lobbies s) k' = Some lb \<and> q \<in> set (lobby_players lb)"
    by (auto simp: lobbies_put_def update_conv' split: if_splits)
  with assms(1) show "lobbySubscriptions (lobbies_put (Some k) l' s) q = Some k'"
    by (auto simp: lobbies_put_def dest: index_member)
qed

lemma index_players [simp]: "index_ok (s\<lparr>players := m\<rparr>) = index_ok s"
  by (simp add: index_ok_def)

lemma index_addChatMessage: "index_ok s \<Longrightarrow> index_ok (snd (addChatMessage e lobbyId p msg s))"
  by (cases lobbyId)
     (auto simp: addChatMessage_def Let_def split: option.splits intro!: index_put_same_players)

lemma index_regeneratePassword:
  "index_ok s \<Longrightarrow> index_ok (snd (regeneratePassword e lobbyId p s))"
  by (cases lobbyId)
     (auto simp: regeneratePassword_def Let_def split: option.splits intro!: index_put_same_players)

lemma index_togglePrivacy: "index_ok s \<Longrightarrow> index_ok (snd (togglePrivacy lobbyId p s))"
  by (cases lobbyId)
     (auto simp: togglePrivacy_def Let_def split: option.splits intro!: index_put_same_players)

lemma index_outsider:
  "index_ok s \<Longrightarrow> lobbySubscriptions s p = None \<Longrightarrow> map_of (lobbies s) k = Some l \<Longrightarrow>
   p \<notin> set (lobby_players l)"
  by (auto dest: index_member)

lemma index_add_lobby:
  assumes "index_ok s" and "lobbySubscriptions s p = None" and "map_of (lobbies s) k = None"
      and "lobby_players l' = [p]"
  shows "index_ok (s\<lparr>lobbies := AList.update k l' (lobbies s),
                     lobbySubscriptions := (lobbySubscriptions s)(p \<mapsto> k)\<rparr>)"
proof (rule index_okI)
  fix q k'
  assume "lobbySubscriptions (s\<lparr>lobbies := AList.update k l' (lobbies s),
                     lobbySubscriptions := (lobbySubscriptions s)(p \<mapsto> k)\<rparr>) q = Some k'"
  then have "q = p \<and> k' = k \<or> q \<noteq> p \<and> lobbySubscriptions s q = Some k'"
    by (auto split: if_splits)
  then show "\<exists>l. map_of (lobbies (s\<lparr>lobbies := AList.update k l' (lobbies s),
                     lobbySubscriptions := (lobbySubscriptions s)(p \<mapsto> k)\<rparr>)) k' = Some l
               \<and> q \<in> set (lobby_players l)"
    using assms(3,4) index_subscribed [OF assms(1), of q k']
    by (auto simp: update_conv')
next
  fix q k' la
  assume "map_of (lobbies (s\<lparr>lobbies := AList.update k l' (lobbies s),
                     lobbySubscriptions := (lobbySubscriptions s)(p \<mapsto> k)\<rparr>)) k' = Some la"
    and q: "q \<in> set (lobby_players la)"
  then have "k' = k \<and> la = l' \<or> k' \<noteq> k \<and> map_of (lobbies s) k' = Some la"
    by (auto simp: update_conv' split: if_splits)
  then show "lobbySubscriptions (s\<lparr>lobbies := AList.update k l' (lobbies s),
                     lobbySubscriptions := (lobbySubscriptions s)(p \<mapsto> k)\<rparr>) q = Some k'"
    using q assms(4) index_member [OF assms(1), of k' la q] index_outsider [OF assms(1,2), of k' la]
    by auto
qed

lemma index_createLobby:
  assumes "index_ok s" and "lobbySubscriptions s h = None" and "uuidv4 e 0 \<notin> fst ` set (lobbies s)"
  shows "index_ok (snd (createLobby e ttl h m s))"
proof -
  from assms(3) have fresh: "map_of (lobbies s) (uuidv4 e 0) = None"
    by (simp add: map_of_eq_None_iff)
  show ?thesis
    unfolding createLobby_def Let_def snd_conv
    by (rule index_add_lobby [OF assms(1,2) fresh]) simp
qed

lemma joinLobby_failure: "isl (fst (joinLobby e lobbyId p s)) \<Longrightarrow> snd (joinLobby e lobbyId p s) = s"
  by (auto simp: joinLobby_def Let_def split: option.splits if_splits)

lemma index_add_member:
  assumes "index_ok s" and "lobbySubscriptions s p = None" and "map_of (lobbies s) k = Some l"
      and "lobby_players l' = lobby_players l @ [p]"
  shows "index_ok (s\<lparr>lobbySubscriptions := (lobbySubscriptions s)(p \<mapsto> k),
                     lobbies := AList.update k l' (lobbies s)\<rparr>)"
proof (rule index_okI)
  fix q k'
  assume "lobbySubscriptions (s\<lparr>lobbySubscriptions := (lobbySubscriptions s)(p \<mapsto> k),
                     lobbies := AList.update k l' (lobbies s)\<rparr>) q = Some k'"
  then have "q = p \<and> k' = k \<or> q \<noteq> p \<and> lobbySubscriptions s q = Some k'"
    by (auto split: if_splits)
  then show "\<exists>l. map_of (lobbies (s\<lparr>lobbySubscriptions := (lobbySubscriptions s)(p \<mapsto> k),
                     lobbies := AList.update k l' (lobbies s)\<rparr>)) k' = Some l
               \<and> q \<in> set (lobby_players l)"
    using assms(3,4) index_subscribed [OF assms(1), of q k']
    by (auto simp: update_conv')
next
  fix q k' la
  assume "map_of (lobbies (s\<lparr>lobbySubscriptions := (lobbySubscriptions s)(p \<mapsto> k),
                     lobbies := AList.update k l' (lobbies s)\<rparr>)) k' = Some la"
    and q: "q \<in> set (lobby_players la)"
  then have "k' = k \<and> la = l' \<or> k' \<noteq> k \<and> map_of (lobbies s) k' = Some la"
    by (auto simp: update_conv' split: if_splits)
  then show "lobbySubscriptions (s\<lparr>lobbySubscriptions := (lobbySubscriptions s)(p \<mapsto> k),
                     lobbies := AList.update k l' (lobbies s)\<rparr>) q = Some k'"
    using q assms(4) index_member [OF assms(1), of k' la q] index_outsider [OF assms(1,2), of k' la]
      index_member [OF assms(1,3), of q]
    by auto
qed

lemma index_joinLobby:
  assumes "index_ok s" and "lobbySubscriptions s p = None"
  shows "index_ok (snd (joinLobby e lobbyId p s))"
proof (cases lobbyId)
  case None
  with assms show ?thesis by (simp add: joinLobby_def)
next
  case (Some k)
  show ?thesis
  proof (cases "map_of (lobbies s) k")
    case None
    with Some assms show ?thesis by (simp add: joinLobby_def)
  next
    case (Some l)
    note add = index_add_member [OF assms Some]
    from Some \<open>lobbyId = Some k\<close> assms(1) show ?thesis
      by (simp add: joinLobby_def Let_def lobbies_put_def add)
  qed
qed

lemma index_remove_member:
  assumes "index_ok s" and "lobbySubscriptions s p = Some k" and "map_of (lobbies s) k = Some l"
      and "lobby_players l' = filter (\<lambda>i. i \<noteq> p) (lobby_players l)"
  shows "index_ok (s\<lparr>lobbySubscriptions := (lobbySubscriptions s)(p := None),
                     lobbies := AList.update k l' (lobbies s)\<rparr>)"
proof (rule index_okI)
  fix q k'
  assume "lobbySubscriptions (s\<lparr>lobbySubscriptions := (lobbySubscriptions s)(p := None),
                     lobbies := AList.update k l' (lobbies s)\<rparr>) q = Some k'"
  then have "q \<noteq> p" "lobbySubscriptions s q = Some k'"
    by (auto split: if_splits)
  then show "\<exists>l. map_of (lobbies (s\<lparr>lobbySubscriptions := (lobbySubscriptions s)(p := None),
                     lobbies := AList.update k l' (lobbies s)\<rparr>)) k' = Some l
               \<and> q \<in> set (lobby_players l)"
    using assms(3,4) index_subscribed [OF assms(1), of q k']
    by (auto simp: update_conv')
next
  fix q k' la
  assume "map_of (lobbies (s\<lparr>lobbySubscriptions := (lobbySubscriptions s)(p := None),
                     lobbies := AList.update k l' (lobbies s)\<rparr>)) k' = Some la"
    and q: "q \<in> set (lobby_players la)"
  then have "k' = k \<and> la = l' \<or> k' \<noteq> k \<and> map_of (lobbies s) k' = Some la"
    by (auto simp: update_conv' split: if_splits)
  then show "lobbySubscriptions (s\<lparr>lobbySubscriptions := (lobbySubscriptions s)(p := None),
                     lobbies := AList.update k l' (lobbies s)\<rparr>) q = Some k'"
    using q assms(2,4) index_member [OF assms(1), of k' la q] index_member [OF assms(1,3), of q]
    by auto
qed

lemma index_remove_last:
  assumes "index_ok s" and "lobbySubscriptions s p = Some k" and "map_of (lobbies s) k = Some l"
      and "filter (\<lambda>i. i \<noteq> p) (lobby_players l) = []"
  shows "index_ok (s\<lparr>lobbySubscriptions := (lobbySubscriptions s)(p := None),
                     lobbies := AList.delete k (lobbies s)\<rparr>)"
proof (rule index_okI)
  from assms(4) have only: "q \<in> set (lobby_players l) \<Longrightarrow> q = p" for q
    by (auto simp: filter_empty_conv)
  fix q k'
  assume "lobbySubscriptions (s\<lparr>lobbySubscriptions := (lobbySubscriptions s)(p := None),
                     lobbies := AList.delete k (lobbies s)\<rparr>) q = Some k'"
  then have "q \<noteq> p" "lobbySubscriptions s q = Some k'"
    by (auto split: if_splits)
  then show "\<exists>l. map_of (lobbies (s\<lparr>lobbySubscriptions := (lobbySubscriptions s)(p := None),
                     lobbies := AList.delete k (lobbies s)\<rparr>)) k' = Some l
               \<and> q \<in> set (lobby_players l)"
    using assms(3) only [of q] index_subscribed [OF assms(1), of q k']
    by (auto simp: delete_conv')
next
  fix q k' la
  assume "map_of (lobbies (s\<lparr>lobbySubscriptions := (lobbySubscriptions s)(p := None),
                     lobbies := AList.delete k (lobbies s)\<rparr>)) k' = Some la"
    and q: "q \<in> set (lobby_players la)"
  then have "k' \<noteq> k \<and> map_of (lobbies s) k' = Some la"
    by (auto simp: delete_conv' split: if_splits)
  then show "lobbySubscriptions (s\<lparr>lobbySubscriptions := (lobbySubscriptions s)(p := None),
                     lobbies := AList.delete k (lobbies s)\<rparr>) q = Some k'"
    using q assms(2) index_member [OF assms(1), of k' la q]
    by auto
qed

lemma index_leaveLobby:
  assumes "index_ok s"
  shows "index_ok (snd (leaveLobby e p s)) \<and> lobbySubscriptions (snd (leaveLobby e p s)) p = None"
proof (cases "lobbySubscriptions s p")
  case None
  with assms show ?thesis by (simp add: leaveLobby_def)
next
  case (Some k)
  from index_subscribed [OF assms Some]
  obtain l where l: "map_of (lobbies s) k = Some l" by blast
  note kept = index_remove_member [OF assms Some l]
  note gone = index_remove_last [OF assms Some l]
  from Some l show ?thesis
    by (simp add: leaveLobby_def Let_def kept gone lobbies_put_def lobbies_delete_def)
qed

lemma index_delistLobby:
  assumes "index_ok s"
  shows "index_ok (snd (delistLobby lobbyId p s))"
proof (cases lobbyId)
  case None
  with assms show ?thesis by (simp add: delistLobby_def)
next
  case (Some k)
  show ?thesis
  proof (cases "map_of (lobbies s) k")
    case None
    with Some assms show ?thesis by (simp add: delistLobby_def)
  next
    case (Some l)
    let ?s' = "s\<lparr>lobbySubscriptions :=
                   fold (\<lambda>pid m. m(pid := None)) (lobby_players l) (lobbySubscriptions s),
                  lobbies := AList.delete k (lobbies s)\<rparr>"
    have "index_ok ?s'"
    proof (rule index_okI)
      fix q k'
      assume "lobbySubscriptions ?s' q = Some k'"
      then have "q \<notin> set (lobby_players l)" "lobbySubscriptions s q = Some k'"
        by (auto simp: fold_clear split: if_splits)
      then show "\<exists>l. map_of (lobbies ?s') k' = Some l \<and> q \<in> set (lobby_players l)"
        using Some index_subscribed [OF assms, of q k']
        by (auto simp: delete_conv')
    next
      fix q k' la
      assume "map_of (lobbies ?s') k' = Some la" and q: "q \<in> set (lobby_players la)"
      then have "k' \<noteq> k \<and> map_of (lobbies s) k' = Some la"
        by (auto simp: delete_conv' split: if_splits)
      then show "lobbySubscriptions ?s' q = Some k'"
        using q index_member [OF assms, of k' la q] index_member [OF assms Some, of q]
        by (auto simp: fold_clear)
    qed
    with Some \<open>lobbyId = Some k\<close> assms show ?thesis
      by (simp add: delistLobby_def Let_def lobbies_delete_def)
  qed
qed

lemma keys_put:
  "distinct (map fst (lobbies s)) \<Longrightarrow> distinct (map fst (lobbies (lobbies_put lobbyId l s)))"
  by (cases lobbyId) (simp_all add: lobbies_put_def distinct_update)

lemma keys_delete:
  "distinct (map fst (lobbies s)) \<Longrightarrow> distinct (map fst (lobbies (lobbies_delete lobbyId s)))"
  by (cases lobbyId) (simp_all add: lobbies_delete_def distinct_delete)

lemma keys_handle:
  assumes "distinct (map fst (lobbies s))"
  shows "distinct (map fst (lobbies (fst (handle clients e ev s))))"
proof (cases ev)
  case (Message ws cmd)
  with assms show ?thesis
    by (cases cmd)
       (auto simp: handle_def fst_on_message createLobby_def joinLobby_def leaveLobby_def
          delistLobby_def addChatMessage_def regeneratePassword_def togglePrivacy_def Let_def
          distinct_update
          split: option.splits intro!: keys_put keys_delete)
next
  case (Close ws)
  with assms show ?thesis
    by (auto simp: handle_def fst_on_close leaveLobby_def Let_def
          split: option.splits intro!: keys_put keys_delete)
qed

lemma index_handle:
  assumes "index_ok s" and "joins_from_outside s e ev"
  shows "index_ok (fst (handle clients e ev s))"
proof (cases ev)
  case (Message ws cmd)
  show ?thesis
  proof (cases cmd)
    case (create_lobby ttl m)
    with assms Message show ?thesis
      by (simp add: handle_def fst_on_message index_createLobby)
  next
    case (join_lobby lobbyId)
    with assms Message show ?thesis
      by (auto simp: handle_def fst_on_message index_joinLobby joinLobby_failure)
  qed (use assms Message in \<open>simp_all add: handle_def fst_on_message index_leaveLobby
        index_delistLobby index_addChatMessage index_regeneratePassword index_togglePrivacy\<close>)
next
  case (Close ws)
  from index_leaveLobby [OF assms(1), of e "playerId ws"]
  have ok: "index_ok (snd (leaveLobby e (playerId ws) s))"
    and gone: "lobbySubscriptions (snd (leaveLobby e (playerId ws) s)) (playerId ws) = None"
    by simp_all
  from gone have "(lobbySubscriptions (snd (leaveLobby e (playerId ws) s)))(playerId ws := None)
      = lobbySubscriptions (snd (leaveLobby e (playerId ws) s))"
    by (simp add: fun_upd_idem)
  with ok Close show ?thesis
    by (simp add: handle_def fst_on_close)
qed

text \<open>
  C2, as amended. In every state reachable by events in which \<^verbatim>\<open>create_lobby\<close> is sent only
  by connections without a subscription entry (and draws an unused lobby id) and
  \<^verbatim>\<open>join_lobby\<close> succeeds only for such connections, each connection id is in the member
  list of at most one lobby, and it has a subscription entry exactly when it is in some
  member list.
\<close>

theorem membership_kept:
  "reachable joins_from_outside s \<Longrightarrow> membership_ok s"
proof -
  assume "reachable joins_from_outside s"
  then have "index_ok s \<and> distinct (map fst (lobbies s))"
  proof (induction rule: reachable.induct)
    case start
    show ?case by (simp add: index_ok_def initial_state_def)
  next
    case (after s e ev clients)
    then show ?case by (simp add: index_handle keys_handle)
  qed
  then show ?thesis by (simp add: index_membership)
qed

text \<open>The run to lobbies A (H and P) and B (Q): everybody is where the map says.\<close>

theorem membership_kept_witness:
  "reachable joins_from_outside state_APB \<and> membership_ok state_APB
   \<and> map (\<lambda>(k, l). (k, lobby_players l)) (lobbies state_APB)
       = [(Uuid 10, [Uuid 2, Uuid 3]), (Uuid 40, [Uuid 4])]
   \<and> map (lobbySubscriptions state_APB) [Uuid 2, Uuid 3, Uuid 4, Uuid 5]
       = [Some (Uuid 10), Some (Uuid 10), Some (Uuid 40), None]"
proof -
  have a: "admissible joins_from_outside
      [(1, Message conn_H (register_player ''H'' None)),
       (2, Message conn_P (register_player ''P'' (Some 5))),
       (10, Message conn_H (create_lobby ''A'' (Some 2)))] initial_state"
    by (simp add: handle_def on_message_def initial_state_def conn_H_def)
  have b: "admissible joins_from_outside [(20, Message conn_P (join_lobby (Some (Uuid 10))))] state_A"
    by (simp add: state_A_def conn_P_def)
  have c: "admissible joins_from_outside [(40, Message conn_Q (create_lobby ''B'' None))] state_AP"
    by (simp add: state_AP_def conn_Q_def env_at_def)
  from run_reachable [OF reachable.start a] have "reachable joins_from_outside state_A"
    by (simp only: state_A_run)
  from run_reachable [OF this b] have "reachable joins_from_outside state_AP"
    by (simp only: state_AP_run)
  from run_reachable [OF this c] have r: "reachable joins_from_outside state_APB"
    by (simp only: state_APB_run)
  have v: "map (\<lambda>(k, l). (k, lobby_players l)) (lobbies state_APB)
       = [(Uuid 10, [Uuid 2, Uuid 3]), (Uuid 40, [Uuid 4])]"
    "map (lobbySubscriptions state_APB) [Uuid 2, Uuid 3, Uuid 4, Uuid 5]
       = [Some (Uuid 10), Some (Uuid 10), Some (Uuid 40), None]"
    by (simp_all add: state_APB_def lobby_AP_def lobby_A_def lobby_B_def)
  from membership_kept [OF r] r v show ?thesis by simp
qed

text \<open>
  C2 as stated includes \<^verbatim>\<open>create_lobby\<close> and \<^verbatim>\<open>join_lobby\<close> from a connection that is already
  in a lobby. Neither handler looks at the sender's current lobby. H, host of A, creates
  lobby C and is a member of both; P, member of A, joins B and is a member of both; and
  when H then leaves (lobby C, the one the map points to), H is still listed in A but has
  no subscription entry.
\<close>

theorem second_lobby_counterexample:
  "reachable any_event (run [(50, Message conn_H (create_lobby ''C'' None))] state_A)
   \<and> map (\<lambda>(k, l). (k, lobby_players l))
       (lobbies (run [(50, Message conn_H (create_lobby ''C'' None))] state_A))
       = [(Uuid 10, [Uuid 2]), (Uuid 50, [Uuid 2])]
   \<and> \<not> one_lobby_each (run [(50, Message conn_H (create_lobby ''C'' None))] state_A)
   \<and> reachable any_event (run [(50, Message conn_P (join_lobby (Some (Uuid 40))))] state_APB)
   \<and> map (\<lambda>(k, l). (k, lobby_players l))
       (lobbies (run [(50, Message conn_P (join_lobby (Some (Uuid 40))))] state_APB))
       = [(Uuid 10, [Uuid 2, Uuid 3]), (Uuid 40, [Uuid 4, Uuid 3])]
   \<and> \<not> one_lobby_each (run [(50, Message conn_P (join_lobby (Some (Uuid 40))))] state_APB)
   \<and> reachable any_event
       (run [(50, Message conn_H (create_lobby ''C'' None)), (60, Message conn_H leave_lobby)] state_A)
   \<and> map (\<lambda>(k, l). (k, lobby_players l))
       (lobbies (run [(50, Message conn_H (create_lobby ''C'' None)),
                      (60, Message conn_H leave_lobby)] state_A))
       = [(Uuid 10, [Uuid 2])]
   \<and> lobbySubscriptions
       (run [(50, Message conn_H (create_lobby ''C'' None)), (60, Message conn_H leave_lobby)] state_A)
       (Uuid 2) = None
   \<and> \<not> subscribed_iff_member
       (run [(50, Message conn_H (create_lobby ''C'' None)), (60, Message conn_H leave_lobby)] state_A)"
proof -
  have any: "admissible any_event evs s" for evs s
    by (induction evs arbitrary: s) (auto simp: any_event_def)
  have base: "reachable any_event initial_state" by (rule reachable.start)
  have rA: "reachable any_event state_A"
    using run_reachable [OF base any] state_A_run by metis
  have rAP: "reachable any_event state_AP"
    using run_reachable [OF rA any] state_AP_run by metis
  have rAPB: "reachable any_event state_APB"
    using run_reachable [OF rAP any] state_APB_run by metis
  have c: "lobbies (run [(50, Message conn_H (create_lobby ''C'' None))] state_A)
      = [(Uuid 10, lobby_A),
         (Uuid 50, \<lparr>lobby_id = Uuid 50, title = ''C'', hostId = Uuid 2, lobby_players = [Uuid 2],
              maxPlayers = 3, password = generatePassword (env_at 50), isPrivate = False,
              createdAt = 50,
              chatMessages = [\<lparr>msg_id = Uuid 51, user = ''System'',
                               message = ''Lobby created! Welcome!'', timestamp = 51\<rparr>]\<rparr>)]"
    by (simp add: handle_def on_message_def createLobby_def Let_def state_A_def env_at_def conn_H_def)
  have j: "map (\<lambda>(k, l). (k, lobby_players l))
       (lobbies (run [(50, Message conn_P (join_lobby (Some (Uuid 40))))] state_APB))
       = [(Uuid 10, [Uuid 2, Uuid 3]), (Uuid 40, [Uuid 4, Uuid 3])]"
    by (simp add: handle_def on_message_def joinLobby_def Let_def lobbies_put_def
        state_APB_def lobby_AP_def lobby_A_def lobby_B_def conn_P_def)
  have l: "lobbies (run [(50, Message conn_H (create_lobby ''C'' None)),
                         (60, Message conn_H leave_lobby)] state_A) = [(Uuid 10, lobby_A)]"
    "lobbySubscriptions (run [(50, Message conn_H (create_lobby ''C'' None)),
                         (60, Message conn_H leave_lobby)] state_A) (Uuid 2) = None"
    by (simp_all add: handle_def on_message_def createLobby_def leaveLobby_def Let_def
        lobbies_put_def lobbies_delete_def state_A_def env_at_def conn_H_def)
  have n1: "\<not> one_lobby_each (run [(50, Message conn_H (create_lobby ''C'' None))] state_A)"
    unfolding one_lobby_each_def c by (simp add: lobby_A_def)
  have n2: "\<not> one_lobby_each (run [(50, Message conn_P (join_lobby (Some (Uuid 40))))] state_APB)"
    unfolding one_lobby_each_def
    by (simp add: handle_def on_message_def joinLobby_def Let_def lobbies_put_def
        state_APB_def lobby_AP_def lobby_A_def lobby_B_def conn_P_def)
  have n3: "\<not> subscribed_iff_member
       (run [(50, Message conn_H (create_lobby ''C'' None)), (60, Message conn_H leave_lobby)] state_A)"
  proof
    assume "subscribed_iff_member
       (run [(50, Message conn_H (create_lobby ''C'' None)), (60, Message conn_H leave_lobby)] state_A)"
    then have "(lobbySubscriptions
         (run [(50, Message conn_H (create_lobby ''C'' None)), (60, Message conn_H leave_lobby)] state_A)
         (Uuid 2) \<noteq> None)
       = (\<exists>(k, l) \<in> set (lobbies
            (run [(50, Message conn_H (create_lobby ''C'' None)),
                  (60, Message conn_H leave_lobby)] state_A)). Uuid 2 \<in> set (lobby_players l))"
      unfolding subscribed_iff_member_def by (rule spec)
    then show False unfolding l by (simp add: lobby_A_def)
  qed
  have r1: "reachable any_event (run [(50, Message conn_H (create_lobby ''C'' None))] state_A)"
    by (rule run_reachable [OF rA any])
  have r2: "reachable any_event (run [(50, Message conn_P (join_lobby (Some (Uuid 40))))] state_APB)"
    by (rule run_reachable [OF rAPB any])
  have r3: "reachable any_event
       (run [(50, Message conn_H (create_lobby ''C'' None)), (60, Message conn_H leave_lobby)] state_A)"
    by (rule run_reachable [OF rA any])
  from r1 r2 r3 c j l n1 n2 n3
  show ?thesis by (simp add: lobby_A_def del: run.simps)
qed

end
